theory Spec2Isabelle
  imports Complex_Main
begin

section \<open>Python strings and the built-ins the bots use\<close>

text \<open>
  A Python \<open>str\<close> is modelled as a \<open>string\<close>: one list element per character of the
  \<open>str\<close>, so \<open>length\<close> is Python's \<open>len\<close>. The code below only compares characters
  with the newline and with white space, and counts them.
\<close>

definition NL :: char where
  "NL = CHR 0x0A"

text \<open>
  Python slices with an integer bound: \<open>s[:k]\<close> and \<open>s[k:]\<close>. A negative bound counts
  from the end; a bound beyond the string is clipped.
\<close>

definition slice_to :: "'a list \<Rightarrow> int \<Rightarrow> 'a list" where
  "slice_to s k = (if k < 0 then take (length s - nat (- k)) s else take (nat k) s)"

definition slice_from :: "'a list \<Rightarrow> int \<Rightarrow> 'a list" where
  "slice_from s k = (if k < 0 then drop (length s - nat (- k)) s else drop (nat k) s)"

text \<open>
  \<open>s.rfind(sub)\<close>: the highest index at which \<open>sub\<close> occurs in \<open>s\<close>, or \<open>-1\<close>.
  \<open>rfind_below s sub n\<close> looks at the indices below \<open>n\<close>, highest first.
\<close>

definition occurs_at :: "string \<Rightarrow> string \<Rightarrow> nat \<Rightarrow> bool" where
  "occurs_at s sub i = (i + length sub \<le> length s \<and> take (length sub) (drop i s) = sub)"

fun rfind_below :: "string \<Rightarrow> string \<Rightarrow> nat \<Rightarrow> int" where
  "rfind_below s sub 0 = - 1"
| "rfind_below s sub (Suc i) = (if occurs_at s sub i then int i else rfind_below s sub i)"

definition rfind :: "string \<Rightarrow> string \<Rightarrow> int" where
  "rfind s sub = rfind_below s sub (Suc (length s))"

text \<open>\<open>s.lstrip("\n")\<close>: drop every leading newline.\<close>

definition lstrip_nl :: "string \<Rightarrow> string" where
  "lstrip_nl s = dropWhile (\<lambda>c. c = NL) s"

section \<open>The message segmenter: \<open>_split_message\<close> (telegram_bot.py, lines 34-53)\<close>

text \<open>
  Lines 45-50, the body of the loop up to the choice of \<open>split_idx\<close>: the last double
  newline of the window, else the last newline of the window, else \<open>max_len\<close>.
\<close>

definition split_idx :: "string \<Rightarrow> int \<Rightarrow> int" where
  "split_idx remaining max_len =
     (let window = slice_to remaining max_len;
          i = rfind window [NL, NL];
          i = (if i = - 1 then rfind window [NL] else i);
          i = (if i = - 1 then max_len else i)
      in i)"

text \<open>
  Lines 40-52, the \<open>while remaining:\<close> loop, with \<open>parts\<close> as accumulator. The loop
  need not end for every \<open>max_len\<close>, so the result is an option: \<open>None\<close> is a loop
  that never returns.
\<close>

partial_function (option) split_loop :: "string \<Rightarrow> int \<Rightarrow> string list \<Rightarrow> string list option" where
  "split_loop remaining max_len parts =
     (if remaining = [] then Some parts
      else if int (length remaining) \<le> max_len then Some (parts @ [remaining])
      else split_loop (lstrip_nl (slice_from remaining (split_idx remaining max_len))) max_len
             (parts @ [slice_to remaining (split_idx remaining max_len)]))"

declare split_loop.simps [code]

definition split_message :: "string \<Rightarrow> int \<Rightarrow> string list option" where
  "split_message text max_len =
     (if int (length text) \<le> max_len then Some [text] else split_loop text max_len [])"

text \<open>
  Positions of the text, for stating what the segmenter does: a paragraph break (two
  newlines in a row) starts at \<open>i\<close>; a line break (a newline) is at \<open>i\<close>.
\<close>

definition para_break_at :: "string \<Rightarrow> nat \<Rightarrow> bool" where
  "para_break_at s i = (i + 1 < length s \<and> s ! i = NL \<and> s ! (i + 1) = NL)"

definition line_break_at :: "string \<Rightarrow> nat \<Rightarrow> bool" where
  "line_break_at s i = (i < length s \<and> s ! i = NL)"

text \<open>
  \<open>p\<close> is the last paragraph break that lies wholly within the first \<open>m\<close> characters;
  \<open>p\<close> is the last line break within the first \<open>m\<close> characters.
\<close>

definition last_para_break :: "string \<Rightarrow> nat \<Rightarrow> nat \<Rightarrow> bool" where
  "last_para_break s m p =
     (p + 2 \<le> m \<and> para_break_at s p \<and> (\<forall>j. p < j \<and> j + 2 \<le> m \<longrightarrow> \<not> para_break_at s j))"

definition last_line_break :: "string \<Rightarrow> nat \<Rightarrow> nat \<Rightarrow> bool" where
  "last_line_break s m p =
     (p < m \<and> line_break_at s p \<and> (\<forall>j. p < j \<and> j < m \<longrightarrow> \<not> line_break_at s j))"

text \<open>
  Reassembly: the text is the chunks in order, each followed by a (possibly empty) run of
  newlines, the ones stripped at that split boundary.
\<close>

definition restores :: "string list \<Rightarrow> string \<Rightarrow> bool" where
  "restores chunks text =
     (\<exists>seps. length seps = length chunks \<and> (\<forall>s\<in>set seps. set s \<subseteq> {NL}) \<and>
        concat (map2 (@) chunks seps) = text)"

section \<open>Exceptions, effects and the external collaborators\<close>

text \<open>
  An exception carries its message (\<open>str(e)\<close>). The classes the code tells apart:
  \<open>RuntimeError\<close>, the Telegram library's \<open>BadRequest\<close>, any other instance of
  \<open>Exception\<close>, and a \<open>BaseException\<close> that is no \<open>Exception\<close>
  (\<open>asyncio.CancelledError\<close>, \<open>KeyboardInterrupt\<close>, \<open>SystemExit\<close>), which
  \<open>except Exception\<close> does not catch.
\<close>

datatype exn =
    RuntimeError string
  | BadRequest string
  | OtherException string
  | BaseOnly string

fun is_Exception :: "exn \<Rightarrow> bool" where
  "is_Exception (BaseOnly _) = False"
| "is_Exception _ = True"

fun is_RuntimeError :: "exn \<Rightarrow> bool" where
  "is_RuntimeError (RuntimeError _) = True"
| "is_RuntimeError _ = False"

fun is_BadRequest :: "exn \<Rightarrow> bool" where
  "is_BadRequest (BadRequest _) = True"
| "is_BadRequest _ = False"

fun str_exn :: "exn \<Rightarrow> string" where
  "str_exn (RuntimeError m) = m"
| "str_exn (BadRequest m) = m"
| "str_exn (OtherException m) = m"
| "str_exn (BaseOnly m) = m"

text \<open>A call returns a value, raises, or never returns.\<close>

datatype 'a outcome = Returns 'a | Raises exn | NoReturn

text \<open>
  What a function does to the outside, in program order: calls to the user store, the AI
  backend, the logger, the event loop and the platform libraries.
\<close>

datatype action =
    GetUserByUsername string
  | CreateUser string
  | GenerateResponse string string bool bool bool string
  | LogInfo string
  | LogWarning string
  | LogError string
  | CreateTask string
  | CancelTask string
  | AwaitTask string
  | ReplyText string bool
  | Say string
  | GetRunningLoop
  | BuildApplication string
  | AddHandler string
  | NewAsyncApp string
  | RegisterHandlers
  | RunUntilComplete string
  | ThreadStart string

text \<open>
  A computation is the trace of its actions and its outcome. \<open>io_bind\<close> is sequencing
  (what follows a call that raises or never returns is not run), \<open>io_try\<close> is
  \<open>try: ... except <class>: ...\<close>, \<open>io_call\<close> is one call to a collaborator, whose
  outcome the environment gives.
\<close>

type_synonym 'a io = "action list \<times> 'a outcome"

definition io_return :: "'a \<Rightarrow> 'a io" where
  "io_return x = ([], Returns x)"

definition io_bind :: "'a io \<Rightarrow> ('a \<Rightarrow> 'b io) \<Rightarrow> 'b io" where
  "io_bind m f =
     (case snd m of
        Returns x \<Rightarrow> (fst m @ fst (f x), snd (f x))
      | Raises e \<Rightarrow> (fst m, Raises e)
      | NoReturn \<Rightarrow> (fst m, NoReturn))"

definition io_try :: "'a io \<Rightarrow> (exn \<Rightarrow> bool) \<Rightarrow> (exn \<Rightarrow> 'a io) \<Rightarrow> 'a io" where
  "io_try body catches handler =
     (case snd body of
        Returns x \<Rightarrow> body
      | Raises e \<Rightarrow>
          if catches e then (fst body @ fst (handler e), snd (handler e)) else body
      | NoReturn \<Rightarrow> body)"

definition io_call :: "action \<Rightarrow> 'a outcome \<Rightarrow> 'a io" where
  "io_call a result = ([a], result)"

definition log_info :: "string \<Rightarrow> unit io" where
  "log_info m = ([LogInfo m], Returns ())"

definition log_warning :: "string \<Rightarrow> unit io" where
  "log_warning m = ([LogWarning m], Returns ())"

definition log_error :: "string \<Rightarrow> unit io" where
  "log_error m = ([LogError m], Returns ())"

text \<open>
  The configuration the bots read (config.py: \<open>TelegramConfig\<close>, \<open>SlackConfig\<close>,
  \<open>FileConfig.cookies_file\<close>). A token is \<open>Optional[str]\<close>.
\<close>

record config =
  telegram_bot_token :: "string option"
  telegram_webhook_url :: "string option"
  telegram_use_webhook :: bool
  slack_bot_token :: "string option"
  slack_app_token :: "string option"
  cookies_file :: string

text \<open>
  The collaborators that are not part of the bots: \<open>db_manager\<close>, \<open>ai_service\<close>,
  asyncio, threading and the platform libraries. Each field is the outcome of the call
  with those arguments. \<open>reply_text\<close> takes the chunk's index, the chunk and whether
  Markdown is asked for; \<open>await_typing_task\<close> is what awaiting the cancelled typing task
  gives.
\<close>

record 'u world =
  get_user_by_username :: "string \<Rightarrow> 'u option outcome"
  create_user :: "string \<Rightarrow> unit outcome"
  generate_response :: "string \<Rightarrow> string \<Rightarrow> bool \<Rightarrow> bool \<Rightarrow> bool \<Rightarrow> string \<Rightarrow> string outcome"
  await_typing_task :: "unit outcome"
  reply_text :: "nat \<Rightarrow> string \<Rightarrow> bool \<Rightarrow> unit outcome"
  say :: "string \<Rightarrow> unit outcome"
  get_running_loop :: "unit outcome"
  build_application :: "string \<Rightarrow> unit outcome"
  add_handler :: "string \<Rightarrow> unit outcome"
  new_async_app :: "string \<Rightarrow> unit outcome"
  register_handlers :: "unit outcome"
  run_until_complete :: "string \<Rightarrow> unit outcome"
  thread_start :: "string \<Rightarrow> unit outcome"

section \<open>The response orchestrator: \<open>_generate_answer\<close>\<close>

definition APOLOGY :: string where
  "APOLOGY = ''Sorry, I couldn't get a response right now. Please try again.''"

definition TELEGRAM_USERNAME_PREFIX :: string where
  "TELEGRAM_USERNAME_PREFIX = ''tg_''"

text \<open>
  The two bots have the same \<open>_generate_answer\<close> (telegram_bot.py, lines 56-79;
  slack_bot.py, lines 25-51) up to the platform's name in the log messages and the
  username: Telegram's caller passes \<open>tg_<id>\<close>, Slack's function builds
  \<open>slack_<user_id>\<close> itself. The common body is written once, in three parts.

  First the user resolver (telegram_bot.py, lines 59-66; slack_bot.py, lines 31-38), which
  yields the username the backend is asked under. The lookup is not inside the inner
  \<open>try\<close>; the creation is, and its handler sets \<open>username = "admin"\<close>.
\<close>

definition ensure_user :: "string \<Rightarrow> 'u world \<Rightarrow> string \<Rightarrow> string io" where
  "ensure_user platform w username =
     io_bind (io_call (GetUserByUsername username) (get_user_by_username w username)) (\<lambda>user.
     if user = None then
       io_try
         (io_bind (io_call (CreateUser username) (create_user w username)) (\<lambda>_.
          io_bind (log_info (''Created new '' @ platform @ '' virtual user '' @ [CHR 0x27] @ username @ [CHR 0x27])) (\<lambda>_.
          io_return username)))
         is_Exception
         (\<lambda>create_err.
          io_bind (log_warning (''Could not create '' @ platform @ '' user '' @ [CHR 0x27] @ username @ [CHR 0x27]
                     @ '': '' @ str_exn create_err @ ''. Falling back to admin context.'')) (\<lambda>_.
          io_return ''admin''))
     else io_return username)"

text \<open>
  The call of the AI backend (telegram_bot.py, lines 68-75; slack_bot.py, lines 40-47):
  history on, sources removed, no proxies, the configured cookie file.
\<close>

definition ask_backend :: "config \<Rightarrow> 'u world \<Rightarrow> string \<Rightarrow> string \<Rightarrow> string io" where
  "ask_backend cfg w txt username =
     io_call (GenerateResponse txt username True True False (cookies_file cfg))
       (generate_response w txt username True True False (cookies_file cfg))"

text \<open>The outer \<open>try ... except Exception\<close>, which logs and returns the apology.\<close>

definition generate_answer :: "string \<Rightarrow> config \<Rightarrow> 'u world \<Rightarrow> string \<Rightarrow> string \<Rightarrow> string io" where
  "generate_answer platform cfg w txt username =
     io_try
       (io_bind (ensure_user platform w username) (\<lambda>username.
        ask_backend cfg w txt username))
       is_Exception
       (\<lambda>e.
        io_bind (log_error (platform @ '' bot failed to get AI response: '' @ str_exn e)) (\<lambda>_.
        io_return APOLOGY))"

definition tg_generate_answer :: "config \<Rightarrow> 'u world \<Rightarrow> string \<Rightarrow> string \<Rightarrow> string io" where
  "tg_generate_answer cfg w txt username = generate_answer ''Telegram'' cfg w txt username"

definition slack_generate_answer :: "config \<Rightarrow> 'u world \<Rightarrow> string \<Rightarrow> string \<Rightarrow> string io" where
  "slack_generate_answer cfg w txt user_id =
     (let username = ''slack_'' @ user_id in generate_answer ''Slack'' cfg w txt username)"

section \<open>The platform adapters: \<open>handle_message\<close>\<close>

text \<open>
  \<open>str.strip()\<close> removes white space at both ends; for the characters below 256 that
  is the set \<open>str.isspace\<close> accepts.
\<close>

definition is_space :: "char \<Rightarrow> bool" where
  "is_space c = (of_char c \<in> {9, 10, 11, 12, 13, 28, 29, 30, 31, 32, 133, 160 :: nat})"

definition strip :: "string \<Rightarrow> string" where
  "strip s = rev (dropWhile is_space (rev (dropWhile is_space s)))"

text \<open>\<open>str\<close> of an integer, for the f-string of the Telegram username.\<close>

function str_nat :: "nat \<Rightarrow> string" where
  "str_nat n =
     (if n < 10 then [char_of (48 + n)] else str_nat (n div 10) @ [char_of (48 + n mod 10)])"
  by pat_completeness auto
termination
  by (relation "measure id") auto

definition str_int :: "int \<Rightarrow> string" where
  "str_int i = (if i < 0 then CHR ''-'' # str_nat (nat (- i)) else str_nat (nat i))"

text \<open>The part of a Telegram \<open>Update\<close> the handler reads.\<close>

record tg_message =
  msg_text :: "string option"

record tg_user =
  tg_user_id :: int

record update =
  message :: "tg_message option"
  effective_user :: "tg_user option"

text \<open>
  telegram_bot.py, lines 111-116: each chunk is sent with Markdown; on \<open>BadRequest\<close> it
  is sent once more, plain.
\<close>

fun send_chunks :: "'u world \<Rightarrow> nat \<Rightarrow> string list \<Rightarrow> unit io" where
  "send_chunks w idx [] = io_return ()"
| "send_chunks w idx (chunk # chunks) =
     io_bind
       (io_try (io_call (ReplyText chunk True) (reply_text w idx chunk True))
          is_BadRequest
          (\<lambda>_. io_call (ReplyText chunk False) (reply_text w idx chunk False))) (\<lambda>_.
     send_chunks w (Suc idx) chunks)"

text \<open>
  telegram_bot.py, lines 93-116. The typing loop runs as a task of its own; the handler
  creates it, cancels it and awaits it. The segmenter is called with its default limit.
\<close>

definition tg_handle_message :: "config \<Rightarrow> 'u world \<Rightarrow> update \<Rightarrow> unit io" where
  "tg_handle_message cfg w upd =
     (case (message upd, effective_user upd) of
        (Some msg, Some user) \<Rightarrow>
          (let txt = (case msg_text msg of None \<Rightarrow> [] | Some t \<Rightarrow> t) in
           if strip txt = [] then io_return ()
           else
             (let username = TELEGRAM_USERNAME_PREFIX @ str_int (tg_user_id user) in
              io_bind (io_call (CreateTask ''_typing_loop'') (Returns ())) (\<lambda>_.
              io_bind (tg_generate_answer cfg w txt username) (\<lambda>reply.
              io_bind (io_call (CancelTask ''_typing_loop'') (Returns ())) (\<lambda>_.
              io_bind (io_try (io_call (AwaitTask ''_typing_loop'') (await_typing_task w))
                         is_Exception (\<lambda>_. io_return ())) (\<lambda>_.
              (case split_message reply 4000 of
                 None \<Rightarrow> ([], NoReturn)
               | Some chunks \<Rightarrow> send_chunks w 0 chunks)))))))
      | _ \<Rightarrow> io_return ())"

text \<open>
  slack_bot.py, lines 82-90. The message is a dictionary; \<open>text\<close> defaults to the empty
  string and \<open>user\<close> to \<open>"unknown"\<close>.
\<close>

definition slack_handle_message :: "config \<Rightarrow> 'u world \<Rightarrow> (string \<rightharpoonup> string) \<Rightarrow> unit io" where
  "slack_handle_message cfg w msg =
     (let txt = (case msg ''text'' of None \<Rightarrow> [] | Some t \<Rightarrow> t);
          user_id = (case msg ''user'' of None \<Rightarrow> ''unknown'' | Some u \<Rightarrow> u)
      in if strip txt = [] then io_return ()
         else
           io_bind (slack_generate_answer cfg w txt user_id) (\<lambda>reply.
           io_call (Say reply) (say w reply)))"

section \<open>The launchers: \<open>start_telegram_bot\<close> and \<open>start_slack_bot\<close>\<close>

text \<open>
  Truth of an \<open>Optional[str]\<close>: \<open>None\<close> and the empty string are false. \<open>a or b\<close> is
  \<open>a\<close> when \<open>a\<close> is true, else \<open>b\<close>. \<open>token_str\<close> reads a token that is set.
\<close>

definition truthy :: "string option \<Rightarrow> bool" where
  "truthy t = (case t of None \<Rightarrow> False | Some s \<Rightarrow> s \<noteq> [])"

definition py_or :: "string option \<Rightarrow> string option \<Rightarrow> string option" where
  "py_or a b = (if truthy a then a else b)"

definition token_str :: "string option \<Rightarrow> string" where
  "token_str t = (case t of None \<Rightarrow> [] | Some s \<Rightarrow> s)"

text \<open>
  telegram_bot.py, lines 144-203. The result is the name of the coroutine whose task is
  returned, or \<open>None\<close>. The body of the background thread runs on its own; the launcher
  starts it.
\<close>

definition start_telegram_bot ::
  "config \<Rightarrow> 'u world \<Rightarrow> bool \<Rightarrow> string option \<Rightarrow> string option io" where
  "start_telegram_bot cfg w blocking token_override =
     (let token = py_or token_override (telegram_bot_token cfg) in
      if \<not> truthy token then
        io_bind (log_info ''TELEGRAM_BOT_TOKEN not set; Telegram bot disabled'') (\<lambda>_.
        io_return None)
      else
        io_try
          (io_bind (io_call GetRunningLoop (get_running_loop w)) (\<lambda>_.
           io_bind (io_call (BuildApplication (token_str token)) (build_application w (token_str token))) (\<lambda>_.
           io_bind (io_call (AddHandler ''start'') (add_handler w ''start'')) (\<lambda>_.
           io_bind (io_call (AddHandler ''help'') (add_handler w ''help'')) (\<lambda>_.
           io_bind (io_call (AddHandler ''handle_message'') (add_handler w ''handle_message'')) (\<lambda>_.
           if telegram_use_webhook cfg \<and> truthy (telegram_webhook_url cfg) then
             io_bind (io_call (CreateTask ''run_webhook'') (Returns ())) (\<lambda>_.
             io_return (Some ''run_webhook''))
           else
             io_bind (io_call (CreateTask ''_run_polling'') (Returns ())) (\<lambda>_.
             io_bind (if blocking
                      then io_call (RunUntilComplete ''_run_polling'') (run_until_complete w ''_run_polling'')
                      else io_return ()) (\<lambda>_.
             io_return (Some ''_run_polling'')))))))))
          is_RuntimeError
          (\<lambda>_.
           io_bind (io_call (ThreadStart ''telegram-bot'') (thread_start w ''telegram-bot'')) (\<lambda>_.
           io_bind (log_info ''Telegram bot polling started in background thread'') (\<lambda>_.
           io_return None))))"

text \<open>
  slack_bot.py, lines 59-148. The second \<open>except Exception\<close> clause of the outer \<open>try\<close>
  repeats the first and is never taken.
\<close>

definition start_slack_bot ::
  "config \<Rightarrow> 'u world \<Rightarrow> bool \<Rightarrow> string option \<Rightarrow> string option \<Rightarrow> string option io" where
  "start_slack_bot cfg w blocking bot_token_override app_token_override =
     (let bot_token = py_or bot_token_override (slack_bot_token cfg);
          app_token = py_or app_token_override (slack_app_token cfg)
      in
      if \<not> truthy bot_token \<or> \<not> truthy app_token then
        io_bind (log_info ''SLACK_BOT_TOKEN or SLACK_APP_TOKEN not set; Slack bot disabled'') (\<lambda>_.
        io_return None)
      else
        io_try
          (io_try
             (io_bind (io_call GetRunningLoop (get_running_loop w)) (\<lambda>_.
              io_bind (log_info ''Starting Slack bot in current loop'') (\<lambda>_.
              io_bind (io_call (NewAsyncApp (token_str bot_token)) (new_async_app w (token_str bot_token))) (\<lambda>_.
              io_bind (io_call RegisterHandlers (register_handlers w)) (\<lambda>_.
              io_bind (io_call (CreateTask ''_setup_and_run'') (Returns ())) (\<lambda>_.
              io_bind (if blocking
                       then io_call (RunUntilComplete ''_setup_and_run'') (run_until_complete w ''_setup_and_run'')
                       else io_return ()) (\<lambda>_.
              io_return (Some ''_setup_and_run''))))))))
             is_RuntimeError
             (\<lambda>_.
              io_bind (io_call (ThreadStart ''slack-bot'') (thread_start w ''slack-bot'')) (\<lambda>_.
              io_bind (log_info ''Slack bot started in background thread'') (\<lambda>_.
              io_return None))))
          is_Exception
          (\<lambda>e.
           io_bind (log_error (''Failed to initialize Slack bot: '' @ str_exn e)) (\<lambda>_.
           io_return None)))"

section \<open>Kinds of action\<close>

text \<open>
  The actions of the liveness signal (the typing task is created, cancelled, awaited), and
  the actions of the orchestrator (user store, backend, logger).
\<close>

fun liveness_action :: "action \<Rightarrow> bool" where
  "liveness_action (CreateTask n) = True"
| "liveness_action (CancelTask n) = True"
| "liveness_action (AwaitTask n) = True"
| "liveness_action _ = False"

fun orchestrator_action :: "action \<Rightarrow> bool" where
  "orchestrator_action (GetUserByUsername n) = True"
| "orchestrator_action (CreateUser n) = True"
| "orchestrator_action (GenerateResponse m n h s p c) = True"
| "orchestrator_action (LogInfo m) = True"
| "orchestrator_action (LogWarning m) = True"
| "orchestrator_action (LogError m) = True"
| "orchestrator_action _ = False"

section \<open>Sample environments\<close>

text \<open>
  An environment in which the lookup, the creation and the backend have the given
  outcomes whatever their arguments, and every other call returns; and a configuration
  without tokens.
\<close>

definition sample_world :: "unit option outcome \<Rightarrow> unit outcome \<Rightarrow> string outcome \<Rightarrow> unit world" where
  "sample_world lookup creation answer =
     \<lparr>get_user_by_username = (\<lambda>_. lookup), create_user = (\<lambda>_. creation),
      generate_response = (\<lambda>_ _ _ _ _ _. answer), await_typing_task = Returns (),
      reply_text = (\<lambda>_ _ _. Returns ()), say = (\<lambda>_. Returns ()),
      get_running_loop = Returns (), build_application = (\<lambda>_. Returns ()),
      add_handler = (\<lambda>_. Returns ()), new_async_app = (\<lambda>_. Returns ()),
      register_handlers = Returns (), run_until_complete = (\<lambda>_. Returns ()),
      thread_start = (\<lambda>_. Returns ())\<rparr>"

definition sample_config :: config where
  "sample_config =
     \<lparr>telegram_bot_token = None, telegram_webhook_url = None, telegram_use_webhook = False,
      slack_bot_token = None, slack_app_token = None, cookies_file = ''cookies.json''\<rparr>"

section \<open>Facts about \<open>rfind\<close>\<close>

lemma rfind_below_none: "(rfind_below s sub n = - 1) = (\<forall>i<n. \<not> occurs_at s sub i)"
  by (induction n) (auto simp: less_Suc_eq)

lemma rfind_below_some:
  "rfind_below s sub n \<noteq> - 1 \<Longrightarrow>
     \<exists>i<n. rfind_below s sub n = int i \<and> occurs_at s sub i \<and> (\<forall>j. i < j \<and> j < n \<longrightarrow> \<not> occurs_at s sub j)"
proof (induction n)
  case 0
  then show ?case by simp
next
  case (Suc n)
  show ?case
  proof (cases "occurs_at s sub n")
    case True
    then show ?thesis by auto
  next
    case False
    with Suc obtain i where "i < n" "rfind_below s sub n = int i" "occurs_at s sub i"
      "\<forall>j. i < j \<and> j < n \<longrightarrow> \<not> occurs_at s sub j" by auto
    with False show ?thesis by (auto simp: less_Suc_eq intro!: exI [of _ i])
  qed
qed

lemma occurs_at_bound: "occurs_at s sub i \<Longrightarrow> i < Suc (length s)"
  by (simp add: occurs_at_def)

lemma rfind_none: "(rfind s sub = - 1) = (\<forall>i. \<not> occurs_at s sub i)"
  unfolding rfind_def rfind_below_none using occurs_at_bound by blast

lemma rfind_some:
  assumes "rfind s sub \<noteq> - 1"
  shows "\<exists>i. rfind s sub = int i \<and> occurs_at s sub i \<and> (\<forall>j>i. \<not> occurs_at s sub j)"
proof -
  from assms obtain i where i: "rfind s sub = int i" "occurs_at s sub i"
    "\<forall>j. i < j \<and> j < Suc (length s) \<longrightarrow> \<not> occurs_at s sub j"
    unfolding rfind_def using rfind_below_some by blast
  then have "\<forall>j>i. \<not> occurs_at s sub j" using occurs_at_bound by blast
  with i show ?thesis by blast
qed

lemma rfind_eqI:
  assumes "occurs_at s sub i" "\<forall>j>i. \<not> occurs_at s sub j"
  shows "rfind s sub = int i"
proof -
  have "rfind s sub \<noteq> - 1" using assms(1) by (simp add: rfind_none) blast
  then obtain k where k: "rfind s sub = int k" "occurs_at s sub k" "\<forall>j>k. \<not> occurs_at s sub j"
    using rfind_some by blast
  have "k = i" using assms k by (meson linorder_neqE_nat)
  with k show ?thesis by simp
qed

lemma take2_eq:
  "(take (Suc (Suc 0)) xs = [a, b]) = (2 \<le> length xs \<and> xs ! 0 = a \<and> xs ! 1 = b)"
proof (cases xs)
  case Nil
  then show ?thesis by simp
next
  case (Cons x ys)
  then show ?thesis by (cases ys) auto
qed

lemma take1_eq: "(take (Suc 0) xs = [a]) = (1 \<le> length xs \<and> xs ! 0 = a)"
  by (cases xs) auto

lemma occurs_at_window_NLNL:
  "occurs_at (take m s) [NL, NL] i = (i + 2 \<le> m \<and> para_break_at s i)"
proof (cases "i + 2 \<le> m \<and> i + 2 \<le> length s")
  case True
  then have "take (Suc (Suc 0)) (drop i (take m s)) = [NL, NL] \<longleftrightarrow> s ! i = NL \<and> s ! (i + 1) = NL"
    by (auto simp: take2_eq)
  with True show ?thesis by (auto simp: occurs_at_def para_break_at_def)
next
  case False
  then show ?thesis by (auto simp: occurs_at_def para_break_at_def)
qed

lemma occurs_at_window_NL:
  "occurs_at (take m s) [NL] i = (i < m \<and> line_break_at s i)"
proof (cases "i < m \<and> i < length s")
  case True
  then have "take 1 (drop i (take m s)) = [NL] \<longleftrightarrow> s ! i = NL"
    by (auto simp: take1_eq)
  with True show ?thesis by (auto simp: occurs_at_def line_break_at_def)
next
  case False
  then show ?thesis by (auto simp: occurs_at_def line_break_at_def)
qed

section \<open>Facts about the split index\<close>

lemma split_idx_para:
  assumes "0 < max_len" "j + 2 \<le> nat max_len" "para_break_at remaining j"
  shows "\<exists>p. split_idx remaining max_len = int p \<and> last_para_break remaining (nat max_len) p"
proof -
  let ?w = "take (nat max_len) remaining"
  have "occurs_at ?w [NL, NL] j" using assms by (simp add: occurs_at_window_NLNL)
  then have "rfind ?w [NL, NL] \<noteq> - 1" by (auto simp: rfind_none)
  then obtain p where p: "rfind ?w [NL, NL] = int p" "occurs_at ?w [NL, NL] p"
    "\<forall>j>p. \<not> occurs_at ?w [NL, NL] j" using rfind_some by blast
  have "split_idx remaining max_len = int p"
    using assms(1) p(1) by (simp add: split_idx_def slice_to_def Let_def)
  moreover have "last_para_break remaining (nat max_len) p"
    using p(2,3) by (auto simp: last_para_break_def occurs_at_window_NLNL)
  ultimately show ?thesis by blast
qed

lemma split_idx_line:
  assumes "0 < max_len" "\<forall>j. j + 2 \<le> nat max_len \<longrightarrow> \<not> para_break_at remaining j"
    "j < nat max_len" "line_break_at remaining j"
  shows "\<exists>p. split_idx remaining max_len = int p \<and> last_line_break remaining (nat max_len) p"
proof -
  let ?w = "take (nat max_len) remaining"
  have none: "rfind ?w [NL, NL] = - 1"
    using assms(2) by (simp add: rfind_none occurs_at_window_NLNL)
  have "occurs_at ?w [NL] j" using assms by (simp add: occurs_at_window_NL)
  then have "rfind ?w [NL] \<noteq> - 1" by (auto simp: rfind_none)
  then obtain p where p: "rfind ?w [NL] = int p" "occurs_at ?w [NL] p"
    "\<forall>j>p. \<not> occurs_at ?w [NL] j" using rfind_some by blast
  have "split_idx remaining max_len = int p"
    using assms(1) p(1) none by (simp add: split_idx_def slice_to_def Let_def)
  moreover have "last_line_break remaining (nat max_len) p"
    using p(2,3) by (auto simp: last_line_break_def occurs_at_window_NL)
  ultimately show ?thesis by blast
qed

lemma split_idx_hard:
  assumes "0 < max_len" "\<forall>j. j + 2 \<le> nat max_len \<longrightarrow> \<not> para_break_at remaining j"
    "\<forall>j<nat max_len. \<not> line_break_at remaining j"
  shows "split_idx remaining max_len = max_len"
proof -
  let ?w = "take (nat max_len) remaining"
  have "rfind ?w [NL, NL] = - 1"
    using assms(2) by (simp add: rfind_none occurs_at_window_NLNL)
  moreover have "rfind ?w [NL] = - 1"
    using assms(3) by (simp add: rfind_none occurs_at_window_NL)
  ultimately show ?thesis
    using assms(1) by (simp add: split_idx_def slice_to_def Let_def)
qed

text \<open>The split index is a position of the window; at 0 it sits on a newline.\<close>

lemma split_idx_bounds:
  assumes "0 < max_len"
  shows "\<exists>p. split_idx remaining max_len = int p \<and> p \<le> nat max_len \<and>
           (p = 0 \<longrightarrow> line_break_at remaining 0)"
proof (cases "\<exists>j. j + 2 \<le> nat max_len \<and> para_break_at remaining j")
  case True
  then obtain p where "split_idx remaining max_len = int p" "last_para_break remaining (nat max_len) p"
    using split_idx_para [OF assms] by blast
  then show ?thesis
    by (auto simp: last_para_break_def para_break_at_def line_break_at_def intro!: exI [of _ p])
next
  case no_para: False
  show ?thesis
  proof (cases "\<exists>j<nat max_len. line_break_at remaining j")
    case True
    then obtain p where "split_idx remaining max_len = int p" "last_line_break remaining (nat max_len) p"
      using split_idx_line [OF assms] no_para by blast
    then show ?thesis
      by (auto simp: last_line_break_def intro!: exI [of _ p])
  next
    case False
    then have "split_idx remaining max_len = int (nat max_len)"
      using split_idx_hard [OF assms] no_para assms by simp
    then show ?thesis using assms by (auto intro!: exI [of _ "nat max_len"])
  qed
qed

lemma lstrip_nl_shorter:
  assumes "p < length s" "p \<le> m" "p = 0 \<longrightarrow> line_break_at s 0"
  shows "length (lstrip_nl (drop p s)) < length s"
proof (cases "p = 0")
  case True
  with assms obtain t where "s = NL # t" by (cases s) (auto simp: line_break_at_def)
  then have "length (lstrip_nl (drop p s)) = length (dropWhile (\<lambda>c. c = NL) t)"
    using True by (simp add: lstrip_nl_def)
  also have "\<dots> \<le> length t" by (rule length_dropWhile_le)
  finally show ?thesis using \<open>s = NL # t\<close> by simp
next
  case False
  have "length (lstrip_nl (drop p s)) \<le> length (drop p s)"
    unfolding lstrip_nl_def by (rule length_dropWhile_le)
  with False assms show ?thesis by simp
qed

lemma lstrip_nl_split: "\<exists>sep. set sep \<subseteq> {NL} \<and> s = sep @ lstrip_nl s"
proof -
  have "set (takeWhile (\<lambda>c. c = NL) s) \<subseteq> {NL}"
    using set_takeWhileD by fastforce
  then show ?thesis unfolding lstrip_nl_def
    by (metis takeWhile_dropWhile_id)
qed

section \<open>The segmenter returns, and what it returns\<close>

lemma restores_Nil: "restores [] []"
  by (simp add: restores_def)

lemma restores_single: "restores [s] s"
  unfolding restores_def by (rule exI [of _ "[[]]"]) simp

lemma restores_Cons:
  assumes "restores chunks (lstrip_nl (drop p s))"
  shows "restores (take p s # chunks) s"
proof -
  from assms obtain seps where seps: "length seps = length chunks"
    "\<forall>s\<in>set seps. set s \<subseteq> {NL}" "concat (map2 (@) chunks seps) = lstrip_nl (drop p s)"
    unfolding restores_def by blast
  obtain sep where sep: "set sep \<subseteq> {NL}" "drop p s = sep @ lstrip_nl (drop p s)"
    using lstrip_nl_split by blast
  have "concat (map2 (@) (take p s # chunks) (sep # seps)) = take p s @ sep @ lstrip_nl (drop p s)"
    using seps(3) by simp
  also have "\<dots> = s" using sep(2) by (metis append_take_drop_id)
  finally have "concat (map2 (@) (take p s # chunks) (sep # seps)) = s" .
  moreover have "length (sep # seps) = length (take p s # chunks)" using seps(1) by simp
  moreover have "\<forall>t\<in>set (sep # seps). set t \<subseteq> {NL}" using seps(2) sep(1) by simp
  ultimately show ?thesis unfolding restores_def by blast
qed

lemma split_loop_step:
  assumes "0 < max_len" "max_len < int (length remaining)"
    "split_idx remaining max_len = int p"
  shows "split_loop remaining max_len parts =
           split_loop (lstrip_nl (drop p remaining)) max_len (parts @ [take p remaining])"
proof -
  have "remaining \<noteq> []" using assms by auto
  then show ?thesis
    using assms by (subst split_loop.simps) (simp add: slice_to_def slice_from_def)
qed

lemma split_loop_total:
  assumes "0 < max_len"
  shows "\<exists>chunks. split_loop remaining max_len parts = Some (parts @ chunks) \<and>
           (remaining \<noteq> [] \<longrightarrow> chunks \<noteq> []) \<and>
           (\<forall>c\<in>set chunks. int (length c) \<le> max_len) \<and>
           restores chunks remaining"
proof (induction "length remaining" arbitrary: remaining parts rule: less_induct)
  case less
  show ?case
  proof (cases "remaining = []")
    case True
    then have "split_loop remaining max_len parts = Some (parts @ [])"
      by (subst split_loop.simps) simp
    with True show ?thesis using restores_Nil by simp
  next
    case nonempty: False
    show ?thesis
    proof (cases "int (length remaining) \<le> max_len")
      case True
      then have "split_loop remaining max_len parts = Some (parts @ [remaining])"
        using nonempty by (subst split_loop.simps) simp
      with True show ?thesis using restores_single by simp
    next
      case False
      obtain p where p: "split_idx remaining max_len = int p" "p \<le> nat max_len"
        "p = 0 \<longrightarrow> line_break_at remaining 0"
        using split_idx_bounds [OF assms] by blast
      let ?rest = "lstrip_nl (drop p remaining)"
      have plt: "p < length remaining" using p(2) False assms by simp
      have "length ?rest < length remaining"
        using lstrip_nl_shorter [OF plt p(2) p(3)] .
      then have "\<exists>chunks. split_loop ?rest max_len (parts @ [take p remaining]) =
            Some ((parts @ [take p remaining]) @ chunks) \<and>
          (?rest \<noteq> [] \<longrightarrow> chunks \<noteq> []) \<and>
          (\<forall>c\<in>set chunks. int (length c) \<le> max_len) \<and> restores chunks ?rest"
        by (rule less)
      then obtain chunks where chunks:
        "split_loop ?rest max_len (parts @ [take p remaining]) = Some ((parts @ [take p remaining]) @ chunks)"
        "\<forall>c\<in>set chunks. int (length c) \<le> max_len" "restores chunks ?rest"
        by (elim exE conjE)
      have "split_loop remaining max_len parts = Some (parts @ (take p remaining # chunks))"
        using split_loop_step [OF assms _ p(1)] False chunks(1) by simp
      moreover have "\<forall>c\<in>set (take p remaining # chunks). int (length c) \<le> max_len"
        using chunks(2) p(2) plt assms by simp
      moreover have "restores (take p remaining # chunks) remaining"
        using restores_Cons [OF chunks(3)] .
      ultimately show ?thesis
        by (intro exI [of _ "take p remaining # chunks"]) simp
    qed
  qed
qed

text \<open>
  Claim C3. For every reply string and positive limit: a string within the limit comes
  back as the single chunk equal to it; a longer one is segmented (the loop returns) into a
  non-empty list of chunks, each no longer than the limit, from which the text is restored
  by putting back the newlines stripped at each split boundary.
\<close>

theorem split_message_contract:
  assumes "0 < max_len"
  shows "(int (length text) \<le> max_len \<longrightarrow> split_message text max_len = Some [text]) \<and>
         (max_len < int (length text) \<longrightarrow>
            (\<exists>chunks. split_message text max_len = Some chunks \<and> chunks \<noteq> [] \<and>
               (\<forall>c\<in>set chunks. int (length c) \<le> max_len) \<and> restores chunks text))"
proof -
  obtain chunks where "split_loop text max_len [] = Some ([] @ chunks)"
    "text \<noteq> [] \<longrightarrow> chunks \<noteq> []" "\<forall>c\<in>set chunks. int (length c) \<le> max_len"
    "restores chunks text"
    using split_loop_total [OF assms] by blast
  moreover have "max_len < int (length text) \<longrightarrow> text \<noteq> []"
    using assms by auto
  ultimately show ?thesis by (simp add: split_message_def)
qed

theorem split_message_contract_witness:
  "(0::int) < 3 \<and> (3::int) < int (length (''ab'' @ [NL, NL] @ ''cdefg'')) \<and>
   split_message (''ab'' @ [NL, NL] @ ''cdefg'') 3 = Some [''ab'', ''cde'', ''fg''] \<and>
   (\<exists>chunks. split_message (''ab'' @ [NL, NL] @ ''cdefg'') 3 = Some chunks \<and> chunks \<noteq> [] \<and>
      (\<forall>c\<in>set chunks. int (length c) \<le> 3) \<and> restores chunks (''ab'' @ [NL, NL] @ ''cdefg'')) \<and>
   int (length ''abc'') \<le> 3 \<and> split_message ''abc'' 3 = Some [''abc'']"
proof -
  have h: "(0::int) < 3" by simp
  have e: "split_message (''ab'' @ [NL, NL] @ ''cdefg'') 3 = Some [''ab'', ''cde'', ''fg'']"
    by code_simp
  show ?thesis
    using split_message_contract [OF h, of "''ab'' @ [NL, NL] @ ''cdefg''"]
      split_message_contract [OF h, of "''abc''"] e
    by simp
qed

section \<open>Text without newlines: hard cuts only\<close>

lemma neg_div_small:
  fixes n m :: int
  assumes "0 < n" "n \<le> m"
  shows "(- n) div m = - 1"
  by (rule int_div_pos_eq [where r = "m - n"]) (use assms in auto)

lemma neg_div_step:
  fixes n m :: int
  assumes "0 < m"
  shows "- ((- (n - m)) div m) + 1 = - ((- n) div m)"
proof -
  have "(- n + m) div m = (- n) div m + 1"
    using assms div_add_self2 [of m "- n"] by simp
  moreover have "- (n - m) = - n + m" by simp
  ultimately show ?thesis by simp
qed

lemma lstrip_nl_no_newline: "NL \<notin> set s \<Longrightarrow> lstrip_nl s = s"
  unfolding lstrip_nl_def by (rule dropWhile_id) auto

lemma no_newline_no_break:
  assumes "NL \<notin> set s"
  shows "\<not> para_break_at s j" "\<not> line_break_at s j"
  using assms by (auto simp: para_break_at_def line_break_at_def dest: nth_mem)

lemma split_loop_no_newline:
  assumes "0 < max_len"
  shows "NL \<notin> set remaining \<Longrightarrow> remaining \<noteq> [] \<Longrightarrow>
         \<exists>chunks. split_loop remaining max_len parts = Some (parts @ chunks) \<and>
           int (length chunks) = - ((- int (length remaining)) div max_len) \<and>
           (\<forall>c\<in>set chunks. int (length c) \<le> max_len)"
proof (induction "length remaining" arbitrary: remaining parts rule: less_induct)
  case less
  show ?case
  proof (cases "int (length remaining) \<le> max_len")
    case True
    then have "split_loop remaining max_len parts = Some (parts @ [remaining])"
      using less.prems by (subst split_loop.simps) simp
    moreover have "- ((- int (length remaining)) div max_len) = 1"
      using neg_div_small [of "int (length remaining)" max_len] True less.prems by simp
    ultimately show ?thesis using True
      by (intro exI [of _ "[remaining]"]) simp
  next
    case False
    let ?m = "nat max_len"
    let ?rest = "drop ?m remaining"
    have idx: "split_idx remaining max_len = int ?m"
      using split_idx_hard [OF assms, of remaining] no_newline_no_break [OF less.prems(1)] assms
      by simp
    have rest: "lstrip_nl ?rest = ?rest"
      using less.prems(1) by (auto intro!: lstrip_nl_no_newline dest: in_set_dropD)
    have step: "split_loop remaining max_len parts =
        split_loop ?rest max_len (parts @ [take ?m remaining])"
      using split_loop_step [OF assms _ idx, of parts] False rest by simp
    have "length ?rest < length remaining" "NL \<notin> set ?rest" "?rest \<noteq> []"
      using False assms less.prems(1) by (auto dest: in_set_dropD)
    then have "\<exists>chunks. split_loop ?rest max_len (parts @ [take ?m remaining]) =
          Some ((parts @ [take ?m remaining]) @ chunks) \<and>
        int (length chunks) = - ((- int (length ?rest)) div max_len) \<and>
        (\<forall>c\<in>set chunks. int (length c) \<le> max_len)"
      by (rule less.hyps)
    then obtain chunks where chunks:
      "split_loop ?rest max_len (parts @ [take ?m remaining]) =
          Some ((parts @ [take ?m remaining]) @ chunks)"
      "int (length chunks) = - ((- int (length ?rest)) div max_len)"
      "\<forall>c\<in>set chunks. int (length c) \<le> max_len"
      by (elim exE conjE)
    have len: "int (length ?rest) = int (length remaining) - max_len"
      using False assms by simp
    have "int (length (take ?m remaining # chunks)) = - ((- int (length remaining)) div max_len)"
      using chunks(2) neg_div_step [OF assms, of "int (length remaining)"] len by simp
    moreover have "split_loop remaining max_len parts = Some (parts @ (take ?m remaining # chunks))"
      using step chunks(1) by simp
    moreover have "\<forall>c\<in>set (take ?m remaining # chunks). int (length c) \<le> max_len"
      using chunks(3) assms by simp
    ultimately show ?thesis
      by (intro exI [of _ "take ?m remaining # chunks"]) simp
  qed
qed

text \<open>
  Claim C5. For every reply string with no newline in it and longer than the (positive)
  limit, segmentation returns, with exactly \<open>\<lceil>length / limit\<rceil>\<close> chunks, each no
  longer than the limit.
\<close>

theorem split_message_no_newline:
  assumes "0 < max_len" "NL \<notin> set text" "max_len < int (length text)"
  shows "\<exists>chunks. split_message text max_len = Some chunks \<and>
           int (length chunks) = \<lceil>real (length text) / real_of_int max_len\<rceil> \<and>
           (\<forall>c\<in>set chunks. int (length c) \<le> max_len)"
proof -
  have "text \<noteq> []" using assms by auto
  then have "\<exists>chunks. split_loop text max_len [] = Some ([] @ chunks) \<and>
      int (length chunks) = - ((- int (length text)) div max_len) \<and>
      (\<forall>c\<in>set chunks. int (length c) \<le> max_len)"
    using split_loop_no_newline [OF assms(1,2), of "[]"] by simp
  then obtain chunks where chunks: "split_loop text max_len [] = Some ([] @ chunks)"
    "int (length chunks) = - ((- int (length text)) div max_len)"
    "\<forall>c\<in>set chunks. int (length c) \<le> max_len"
    by (elim exE conjE)
  have "\<lceil>real (length text) / real_of_int max_len\<rceil> = - ((- int (length text)) div max_len)"
    using ceiling_divide_eq_div [of "int (length text)" max_len] by simp
  with chunks show ?thesis using assms(3) by (simp add: split_message_def)
qed

theorem split_message_no_newline_witness:
  "(0::int) < 3 \<and> NL \<notin> set ''abcdefgh'' \<and> (3::int) < int (length ''abcdefgh'') \<and>
   split_message ''abcdefgh'' 3 = Some [''abc'', ''def'', ''gh''] \<and>
   (\<exists>chunks. split_message ''abcdefgh'' 3 = Some chunks \<and>
      int (length chunks) = \<lceil>real (length ''abcdefgh'') / real_of_int 3\<rceil> \<and>
      (\<forall>c\<in>set chunks. int (length c) \<le> 3))"
proof -
  have h: "(0::int) < 3" "NL \<notin> set ''abcdefgh''" "(3::int) < int (length ''abcdefgh'')"
    by (simp_all add: NL_def)
  have e: "split_message ''abcdefgh'' 3 = Some [''abc'', ''def'', ''gh'']"
    by code_simp
  show ?thesis using h e split_message_no_newline [OF h] by simp
qed

section \<open>A break at position 0 gives an empty chunk\<close>

lemma split_idx_leading_break:
  assumes "0 < max_len" "NL \<notin> set body"
  shows "split_idx (NL # NL # body) max_len = 0"
proof (cases "2 \<le> max_len")
  case True
  have "para_break_at (NL # NL # body) 0" by (simp add: para_break_at_def)
  moreover have "0 + 2 \<le> nat max_len" using True by simp
  ultimately obtain p where p: "split_idx (NL # NL # body) max_len = int p"
    "last_para_break (NL # NL # body) (nat max_len) p"
    using split_idx_para [OF assms(1), of 0 "NL # NL # body"] by blast
  have "p = 0"
  proof (rule ccontr)
    assume "p \<noteq> 0"
    then obtain q where q: "p = Suc q" by (cases p) auto
    from p(2) have "q < length body" "body ! q = NL"
      by (auto simp: last_para_break_def para_break_at_def q)
    with assms(2) show False by (metis nth_mem)
  qed
  with p show ?thesis by simp
next
  case False
  with assms(1) have m: "nat max_len = 1" by simp
  have "\<forall>j. j + 2 \<le> nat max_len \<longrightarrow> \<not> para_break_at (NL # NL # body) j"
    using m by simp
  moreover have "line_break_at (NL # NL # body) 0" by (simp add: line_break_at_def)
  ultimately obtain p where p: "split_idx (NL # NL # body) max_len = int p"
    "last_line_break (NL # NL # body) (nat max_len) p"
    using split_idx_line [OF assms(1), of "NL # NL # body" 0] m by auto
  then have "p = 0" using m by (simp add: last_line_break_def)
  with p show ?thesis by simp
qed

text \<open>
  Claim C10. Some input longer than the limit makes the segmenter emit the empty string as
  its first chunk: every text that starts with a double newline followed by more than
  \<open>max_len\<close> characters, none of them a newline, does.
\<close>

theorem split_message_empty_first_chunk:
  assumes "0 < max_len" "NL \<notin> set body" "max_len < int (length body)"
  shows "\<exists>rest. split_message (NL # NL # body) max_len = Some ([] # rest)"
proof -
  have idx: "split_idx (NL # NL # body) max_len = int 0"
    using split_idx_leading_break [OF assms(1,2)] by simp
  have long: "max_len < int (length (NL # NL # body))" using assms(3) by simp
  have "lstrip_nl (drop 0 (NL # NL # body)) = body"
    using lstrip_nl_no_newline [OF assms(2)] by (simp add: lstrip_nl_def)
  then have step: "split_loop (NL # NL # body) max_len [] = split_loop body max_len [[]]"
    using split_loop_step [OF assms(1) long idx, of "[]"] by simp
  obtain chunks where "split_loop body max_len [[]] = Some ([[]] @ chunks)"
    using split_loop_total [OF assms(1), of body "[[]]"] by blast
  with step long show ?thesis by (simp add: split_message_def)
qed

theorem split_message_empty_first_chunk_witness:
  "(0::int) < 4 \<and> NL \<notin> set ''aaaaa'' \<and> (4::int) < int (length ''aaaaa'') \<and>
   split_message (NL # NL # ''aaaaa'') 4 = Some ['''', ''aaaa'', ''a''] \<and>
   (\<exists>rest. split_message (NL # NL # ''aaaaa'') 4 = Some ([] # rest))"
proof -
  have h: "(0::int) < 4" "NL \<notin> set ''aaaaa''" "(4::int) < int (length ''aaaaa'')"
    by (simp_all add: NL_def)
  have e: "split_message (NL # NL # ''aaaaa'') 4 = Some ['''', ''aaaa'', ''a'']"
    by code_simp
  show ?thesis using h e split_message_empty_first_chunk [OF h] by simp
qed

section \<open>The limit has to be positive\<close>

text \<open>With limit 0 the loop never returns on the one-character text \<open>a\<close>.\<close>

lemma split_idx_a_0: "split_idx ''a'' 0 = 0"
  by code_simp

lemma split_loop_limit_0_aux:
  assumes "split_loop remaining max_len parts = Some y"
  shows "\<not> (remaining = ''a'' \<and> max_len = 0)"
proof (rule split_loop.raw_induct
    [where P = "\<lambda>r m p y. \<not> (r = ''a'' \<and> m = 0)", OF _ assms])
  fix f :: "string \<Rightarrow> int \<Rightarrow> string list \<Rightarrow> string list option"
    and r m p and y :: "string list"
  assume IH: "\<And>a b c y. f a b c = Some y \<Longrightarrow> \<not> (a = ''a'' \<and> b = 0)"
    and eq: "(if r = [] then Some p
       else if int (length r) \<le> m then Some (p @ [r])
       else f (lstrip_nl (slice_from r (split_idx r m))) m (p @ [slice_to r (split_idx r m)])) = Some y"
  show "\<not> (r = ''a'' \<and> m = 0)"
  proof
    assume "r = ''a'' \<and> m = 0"
    then have "f ''a'' 0 (p @ [[]]) = Some y"
      using eq by (simp add: split_idx_a_0 slice_from_def slice_to_def lstrip_nl_def NL_def)
    then show False using IH by blast
  qed
qed

lemma split_message_limit_0: "split_message ''a'' 0 = None"
proof (cases "split_loop ''a'' 0 []")
  case None
  then show ?thesis by (simp add: split_message_def)
next
  case (Some y)
  then show ?thesis using split_loop_limit_0_aux [of "''a''" 0 "[]" y] by simp
qed

section \<open>Where the segmenter splits\<close>

lemma lstrip_nl_after_break:
  assumes "para_break_at s i" "\<not> para_break_at s (i + 1)"
  shows "lstrip_nl (drop i s) = drop (i + 2) s"
proof -
  from assms(1) have i: "i + 1 < length s" "s ! i = NL" "s ! (i + 1) = NL"
    by (simp_all add: para_break_at_def)
  have d: "drop i s = NL # NL # drop (i + 2) s"
    using i by (metis Cons_nth_drop_Suc Suc_eq_plus1 Suc_lessD add_2_eq_Suc')
  have "lstrip_nl (drop (i + 2) s) = drop (i + 2) s"
  proof (cases "i + 2 < length s")
    case True
    with assms(2) i have "s ! (i + 2) \<noteq> NL" by (auto simp: para_break_at_def)
    moreover have "drop (i + 2) s = s ! (i + 2) # drop (Suc (i + 2)) s"
      using True by (simp add: Cons_nth_drop_Suc)
    ultimately show ?thesis by (simp add: lstrip_nl_def)
  next
    case False
    then show ?thesis by (simp add: lstrip_nl_def)
  qed
  then show ?thesis using d by (simp add: lstrip_nl_def)
qed

lemma para_break_at_drop:
  "para_break_at (drop k s) j = para_break_at s (k + j)"
  by (auto simp: para_break_at_def add.assoc)

lemma split_idx_unique_para:
  assumes "0 < max_len" "p + 2 \<le> nat max_len" "para_break_at s p"
    "\<forall>j. p < j \<and> j + 2 \<le> nat max_len \<longrightarrow> \<not> para_break_at s j"
  shows "split_idx s max_len = int p"
proof -
  obtain q where q: "split_idx s max_len = int q" "last_para_break s (nat max_len) q"
    using split_idx_para [OF assms(1-3)] by blast
  have "q = p"
    using q(2) assms(2-4) unfolding last_para_break_def by (meson linorder_neqE_nat)
  with q show ?thesis by simp
qed

lemma scenario_9000:
  assumes len: "length text = 9000"
    and breaks: "\<forall>i. para_break_at text i = (i = 3990 \<or> i = 7990)"
  shows "split_message text 4000 =
           Some [take 3990 text, take 3998 (drop 3992 text), drop 7992 text]"
proof -
  let ?r2 = "drop 3992 text"
  let ?r3 = "drop 7992 text"
  have pos: "(0::int) < 4000" by simp
  have idx1: "split_idx text 4000 = int 3990"
    by (rule split_idx_unique_para) (use breaks in auto)
  have strip1: "lstrip_nl (drop 3990 text) = ?r2"
    using lstrip_nl_after_break [of "text" 3990] breaks by simp
  have step1: "split_loop text 4000 [] = split_loop ?r2 4000 [take 3990 text]"
    using split_loop_step [OF pos _ idx1, of "[]"] len strip1 by simp
  have breaks2: "\<forall>j. para_break_at ?r2 j = (j = 3998)"
    using breaks by (auto simp: para_break_at_drop)
  have idx2: "split_idx ?r2 4000 = int 3998"
    by (rule split_idx_unique_para) (use breaks2 in auto)
  have "lstrip_nl (drop 3998 ?r2) = drop (3998 + 2) ?r2"
    by (rule lstrip_nl_after_break) (use breaks2 in auto)
  then have strip2: "lstrip_nl (drop 3998 ?r2) = ?r3" by simp
  have step2: "split_loop ?r2 4000 [take 3990 text] =
      split_loop ?r3 4000 ([take 3990 text] @ [take 3998 ?r2])"
    using split_loop_step [OF pos _ idx2, of "[take 3990 text]"] len strip2 by simp
  have "?r3 \<noteq> []" using len by simp
  then have last: "split_loop ?r3 4000 ([take 3990 text] @ [take 3998 ?r2]) =
      Some (([take 3990 text] @ [take 3998 ?r2]) @ [?r3])"
    using len by (subst split_loop.simps) simp
  show ?thesis
    using step1 step2 last len by (simp add: split_message_def)
qed

lemma nth_three_paragraphs:
  assumes "NL \<notin> set A" "NL \<notin> set B" "NL \<notin> set C"
    and k: "k < length (A @ [NL, NL] @ B @ [NL, NL] @ C)"
  shows "((A @ [NL, NL] @ B @ [NL, NL] @ C) ! k = NL) =
           (k = length A \<or> k = length A + 1 \<or>
            k = length A + 2 + length B \<or> k = length A + 3 + length B)"
proof -
  let ?a = "length A" and ?b = "length B"
  consider "k < ?a" | "k = ?a" | "k = ?a + 1" | "?a + 2 \<le> k \<and> k < ?a + 2 + ?b"
    | "k = ?a + 2 + ?b" | "k = ?a + 3 + ?b" | "?a + 4 + ?b \<le> k"
    by linarith
  then show ?thesis
  proof cases
    case 1
    then have "(A @ [NL, NL] @ B @ [NL, NL] @ C) ! k = A ! k" by (simp add: nth_append)
    moreover have "A ! k \<noteq> NL" using 1 assms(1) by (metis nth_mem)
    ultimately show ?thesis using 1 by simp
  next
    case 2
    then show ?thesis by (simp add: nth_append)
  next
    case 3
    then show ?thesis by (simp add: nth_append)
  next
    case 4
    then have "(A @ [NL, NL] @ B @ [NL, NL] @ C) ! k = B ! (k - ?a - 2)"
      by (simp add: nth_append nth_Cons' less_diff_conv2)
    moreover have "B ! (k - ?a - 2) \<noteq> NL"
      using 4 assms(2) by (metis less_diff_conv2 add.commute diff_diff_left nth_mem)
    ultimately show ?thesis using 4 by simp
  next
    case 5
    then show ?thesis by (simp add: nth_append nth_Cons')
  next
    case 6
    then show ?thesis by (simp add: nth_append nth_Cons')
  next
    case 7
    then have "(A @ [NL, NL] @ B @ [NL, NL] @ C) ! k = C ! (k - ?a - ?b - 4)"
      by (simp add: nth_append nth_Cons' less_diff_conv2)
        (rule arg_cong [where f = "(!) C"], arith)
    moreover have "k - ?a - ?b - 4 < length C" using 7 k by simp
    then have "C ! (k - ?a - ?b - 4) \<noteq> NL" using assms(3) by (metis nth_mem)
    ultimately show ?thesis using 7 by simp
  qed
qed

lemma para_breaks_three_paragraphs:
  assumes "NL \<notin> set A" "NL \<notin> set B" "NL \<notin> set C" "B \<noteq> []"
  shows "para_break_at (A @ [NL, NL] @ B @ [NL, NL] @ C) i =
           (i = length A \<or> i = length A + 2 + length B)"
proof (cases "i + 1 < length (A @ [NL, NL] @ B @ [NL, NL] @ C)")
  case True
  then have i: "i < length (A @ [NL, NL] @ B @ [NL, NL] @ C)" by simp
  have "0 < length B" using assms(4) by simp
  then show ?thesis
    unfolding para_break_at_def
      nth_three_paragraphs [OF assms(1-3) True] nth_three_paragraphs [OF assms(1-3) i]
    using True by auto
next
  case False
  then show ?thesis by (auto simp: para_break_at_def)
qed

lemma split_loop_split_point:
  assumes "0 < max_len" "max_len < int (length remaining)"
  shows "\<exists>p. split_idx remaining max_len = int p \<and>
           split_loop remaining max_len parts =
             split_loop (lstrip_nl (drop p remaining)) max_len (parts @ [take p remaining]) \<and>
           (if \<exists>j. j + 2 \<le> nat max_len \<and> para_break_at remaining j
              then last_para_break remaining (nat max_len) p
            else if \<exists>j<nat max_len. line_break_at remaining j
              then last_line_break remaining (nat max_len) p
            else p = nat max_len)"
proof (cases "\<exists>j. j + 2 \<le> nat max_len \<and> para_break_at remaining j")
  case True
  then obtain p where p: "split_idx remaining max_len = int p"
    "last_para_break remaining (nat max_len) p"
    using split_idx_para [OF assms(1)] by blast
  show ?thesis
    using True p split_loop_step [OF assms p(1), of parts] by (intro exI [of _ p]) simp
next
  case no_para: False
  show ?thesis
  proof (cases "\<exists>j<nat max_len. line_break_at remaining j")
    case True
    then obtain p where p: "split_idx remaining max_len = int p"
      "last_line_break remaining (nat max_len) p"
      using split_idx_line [OF assms(1)] no_para by blast
    show ?thesis
      using True no_para p split_loop_step [OF assms p(1), of parts]
      by (intro exI [of _ p]) auto
  next
    case False
    then have p: "split_idx remaining max_len = int (nat max_len)"
      using split_idx_hard [OF assms(1)] no_para assms(1) by simp
    show ?thesis
      using False no_para p split_loop_step [OF assms p, of parts]
      by (intro exI [of _ "nat max_len"]) auto
  qed
qed

text \<open>
  Claim C4. Whenever the remaining text exceeds the (positive) limit, the loop appends the
  text up to \<open>p\<close> and goes on with the rest, its leading newlines stripped, where \<open>p\<close>
  is the last paragraph break within the first \<open>max_len\<close> characters; if there is none,
  the last newline there; if there is none, \<open>max_len\<close> itself. In particular a text of
  9000 characters whose paragraph breaks are at 3990 and 7990 is split, at limit 4000, into
  exactly three chunks: the text before 3990, between 3992 and 7990, and from 7992 on.
\<close>

theorem split_message_split_point:
  "(0 < max_len \<and> max_len < int (length remaining) \<longrightarrow>
      (\<exists>p. split_idx remaining max_len = int p \<and>
         split_loop remaining max_len parts =
           split_loop (lstrip_nl (drop p remaining)) max_len (parts @ [take p remaining]) \<and>
         (if \<exists>j. j + 2 \<le> nat max_len \<and> para_break_at remaining j
            then last_para_break remaining (nat max_len) p
          else if \<exists>j<nat max_len. line_break_at remaining j
            then last_line_break remaining (nat max_len) p
          else p = nat max_len))) \<and>
   (length text = 9000 \<and> (\<forall>i. para_break_at text i = (i = 3990 \<or> i = 7990)) \<longrightarrow>
      split_message text 4000 =
        Some [take 3990 text, take 3998 (drop 3992 text), drop 7992 text])"
  using split_loop_split_point [of max_len remaining parts] scenario_9000 [of "text"]
  by blast

theorem split_message_split_point_witness:
  "(0::int) < 4 \<and> (4::int) < int (length (''ab'' @ [NL, NL] @ ''cdefg'')) \<and>
   split_idx (''ab'' @ [NL, NL] @ ''cdefg'') 4 = 2 \<and>
   last_para_break (''ab'' @ [NL, NL] @ ''cdefg'') 4 2 \<and>
   split_loop (''ab'' @ [NL, NL] @ ''cdefg'') 4 [] = split_loop ''cdefg'' 4 [''ab''] \<and>
   (4::int) < int (length (''ab'' @ [NL] @ ''cdefg'')) \<and>
   split_idx (''ab'' @ [NL] @ ''cdefg'') 4 = 2 \<and>
   last_line_break (''ab'' @ [NL] @ ''cdefg'') 4 2 \<and>
   (4::int) < int (length ''abcdefg'') \<and>
   split_idx ''abcdefg'' 4 = 4 \<and>
   split_loop ''abcdefg'' 4 [] = split_loop ''efg'' 4 [''abcd''] \<and>
   length (replicate 3990 CHR ''a'' @ [NL, NL] @ replicate 3998 CHR ''a'' @ [NL, NL] @
           replicate 1008 CHR ''a'') = 9000 \<and>
   (\<forall>i. para_break_at (replicate 3990 CHR ''a'' @ [NL, NL] @ replicate 3998 CHR ''a'' @ [NL, NL] @
           replicate 1008 CHR ''a'') i = (i = 3990 \<or> i = 7990)) \<and>
   split_message (replicate 3990 CHR ''a'' @ [NL, NL] @ replicate 3998 CHR ''a'' @ [NL, NL] @
           replicate 1008 CHR ''a'') 4000 =
     Some [replicate 3990 CHR ''a'', replicate 3998 CHR ''a'', replicate 1008 CHR ''a'']"
proof -
  let ?x = "''ab'' @ [NL, NL] @ ''cdefg''"
  let ?y = "''ab'' @ [NL] @ ''cdefg''"
  let ?z = "''abcdefg''"
  let ?t = "replicate 3990 CHR ''a'' @ [NL, NL] @ replicate 3998 CHR ''a'' @ [NL, NL] @
            replicate 1008 CHR ''a''"
  have hx: "(0::int) < 4 \<and> (4::int) < int (length ?x)" by simp
  have hy: "(0::int) < 4 \<and> (4::int) < int (length ?y)" by simp
  have hz: "(0::int) < 4 \<and> (4::int) < int (length ?z)" by simp
  have idx: "split_idx ?x 4 = 2" by code_simp
  have idy: "split_idx ?y 4 = 2" by code_simp
  have idz: "split_idx ?z 4 = 4" by code_simp
  have pb: "\<exists>j. j + 2 \<le> nat 4 \<and> para_break_at ?x j"
    by (rule exI [of _ 2]) (simp add: para_break_at_def)
  have strip: "lstrip_nl (drop 2 ?x) = ''cdefg''" "take 2 ?x = ''ab''"
    "lstrip_nl (drop 4 ?z) = ''efg''" "take 4 ?z = ''abcd''"
    by (simp_all add: lstrip_nl_def NL_def)
  have len: "length ?t = 9000" by simp
  have breaks: "\<forall>i. para_break_at ?t i = (i = 3990 \<or> i = 7990)"
    using para_breaks_three_paragraphs
      [of "replicate 3990 CHR ''a''" "replicate 3998 CHR ''a''" "replicate 1008 CHR ''a''"]
    by (simp add: NL_def)
  have parts: "take 3990 ?t = replicate 3990 CHR ''a''"
    "take 3998 (drop 3992 ?t) = replicate 3998 CHR ''a''"
    "drop 7992 ?t = replicate 1008 CHR ''a''"
    by simp_all
  from split_message_split_point [of 4 ?x "[]" ?t]
  have gen: "\<exists>p. split_idx ?x 4 = int p \<and>
         split_loop ?x 4 [] = split_loop (lstrip_nl (drop p ?x)) 4 ([] @ [take p ?x]) \<and>
         (if \<exists>j. j + 2 \<le> nat 4 \<and> para_break_at ?x j then last_para_break ?x (nat 4) p
          else if \<exists>j<nat 4. line_break_at ?x j then last_line_break ?x (nat 4) p
          else p = nat 4)"
    and scen: "split_message ?t 4000 = Some [take 3990 ?t, take 3998 (drop 3992 ?t), drop 7992 ?t]"
    using hx len breaks by blast+
  from gen obtain p where p: "split_idx ?x 4 = int p"
    "split_loop ?x 4 [] = split_loop (lstrip_nl (drop p ?x)) 4 ([] @ [take p ?x])"
    "last_para_break ?x (nat 4) p"
    using pb by auto
  have "p = 2" using p(1) idx by simp
  then have x: "last_para_break ?x 4 2" "split_loop ?x 4 [] = split_loop ''cdefg'' 4 [''ab'']"
    using p(2,3) strip by simp_all
  from split_message_split_point [of 4 ?y "[]" ?t]
  have "\<exists>p. split_idx ?y 4 = int p \<and>
         split_loop ?y 4 [] = split_loop (lstrip_nl (drop p ?y)) 4 ([] @ [take p ?y]) \<and>
         (if \<exists>j. j + 2 \<le> nat 4 \<and> para_break_at ?y j then last_para_break ?y (nat 4) p
          else if \<exists>j<nat 4. line_break_at ?y j then last_line_break ?y (nat 4) p
          else p = nat 4)"
    using hy by blast
  then obtain q where q: "split_idx ?y 4 = int q"
    "if \<exists>j. j + 2 \<le> nat 4 \<and> para_break_at ?y j then last_para_break ?y (nat 4) q
     else if \<exists>j<nat 4. line_break_at ?y j then last_line_break ?y (nat 4) q
     else q = nat 4"
    by blast
  have q2: "q = 2" using q(1) idy by simp
  have "\<not> last_para_break ?y (nat 4) 2"
    by (simp add: last_para_break_def para_break_at_def NL_def)
  then have y: "last_line_break ?y 4 2"
    using q(2) unfolding q2 by (simp split: if_splits)
  from split_message_split_point [of 4 ?z "[]" ?t]
  have "\<exists>p. split_idx ?z 4 = int p \<and>
         split_loop ?z 4 [] = split_loop (lstrip_nl (drop p ?z)) 4 ([] @ [take p ?z]) \<and>
         (if \<exists>j. j + 2 \<le> nat 4 \<and> para_break_at ?z j then last_para_break ?z (nat 4) p
          else if \<exists>j<nat 4. line_break_at ?z j then last_line_break ?z (nat 4) p
          else p = nat 4)"
    using hz by blast
  then obtain r where r: "split_idx ?z 4 = int r"
    "split_loop ?z 4 [] = split_loop (lstrip_nl (drop r ?z)) 4 ([] @ [take r ?z])"
    by blast
  have "r = 4" using r(1) idz by simp
  then have z: "split_loop ?z 4 [] = split_loop ''efg'' 4 [''abcd'']"
    using r(2) strip by simp
  show ?thesis using hx hy hz idx idy idz x y z len breaks scen parts by simp
qed

section \<open>Facts about the orchestrator\<close>

lemma io_bind_simps:
  "io_bind (tr, Returns x) f = (tr @ fst (f x), snd (f x))"
  "io_bind (tr, Raises e) f = (tr, Raises e)"
  "io_bind (tr, NoReturn) f = (tr, NoReturn)"
  by (simp_all add: io_bind_def)

lemma io_try_simps:
  "io_try (tr, Returns x) c h = (tr, Returns x)"
  "io_try (tr, Raises e) c h = (if c e then (tr @ fst (h e), snd (h e)) else (tr, Raises e))"
  "io_try (tr, NoReturn) c h = (tr, NoReturn)"
  by (simp_all add: io_try_def)

lemmas io_simps = io_bind_simps io_try_simps io_call_def io_return_def
  log_info_def log_warning_def log_error_def

text \<open>The resolver, path by path.\<close>

lemma ensure_user_found:
  "get_user_by_username w username = Returns (Some x) \<Longrightarrow>
     ensure_user p w username = ([GetUserByUsername username], Returns username)"
  by (simp add: ensure_user_def io_simps)

lemma ensure_user_created:
  "get_user_by_username w username = Returns None \<Longrightarrow> create_user w username = Returns () \<Longrightarrow>
     snd (ensure_user p w username) = Returns username"
  by (simp add: ensure_user_def io_simps)

lemma ensure_user_fallback:
  "get_user_by_username w username = Returns None \<Longrightarrow> create_user w username = Raises e \<Longrightarrow>
   is_Exception e \<Longrightarrow>
     ensure_user p w username =
       ([GetUserByUsername username, CreateUser username,
         LogWarning (''Could not create '' @ p @ '' user '' @ [CHR 0x27] @ username @ [CHR 0x27]
           @ '': '' @ str_exn e @ ''. Falling back to admin context.'')],
        Returns ''admin'')"
  by (simp add: ensure_user_def io_simps)

lemma ensure_user_lookup_raises:
  "get_user_by_username w username = Raises e \<Longrightarrow>
     ensure_user p w username = ([GetUserByUsername username], Raises e)"
  by (simp add: ensure_user_def io_simps)

lemma ensure_user_returns:
  assumes "snd (ensure_user p w username) = Returns u"
  shows "u = username \<or> u = ''admin''"
proof (cases "get_user_by_username w username")
  case (Returns user)
  show ?thesis
  proof (cases user)
    case None
    with Returns assms show ?thesis
      by (cases "create_user w username") (auto simp: ensure_user_def io_simps split: if_splits)
  next
    case (Some x)
    with Returns assms show ?thesis by (simp add: ensure_user_def io_simps)
  qed
next
  case (Raises e)
  with assms show ?thesis by (simp add: ensure_user_def io_simps)
next
  case NoReturn
  with assms show ?thesis by (simp add: ensure_user_def io_simps)
qed

lemma ensure_user_trace:
  "GenerateResponse a b c d e f \<notin> set (fst (ensure_user p w username))"
proof (cases "get_user_by_username w username")
  case (Returns user)
  show ?thesis
  proof (cases user)
    case None
    with Returns show ?thesis
      by (cases "create_user w username") (auto simp: ensure_user_def io_simps)
  next
    case (Some x)
    with Returns show ?thesis by (simp add: ensure_user_def io_simps)
  qed
next
  case (Raises e)
  then show ?thesis by (simp add: ensure_user_def io_simps)
next
  case NoReturn
  then show ?thesis by (simp add: ensure_user_def io_simps)
qed

text \<open>The orchestrator, by the outcome of the resolver and of the backend.\<close>

lemma generate_answer_resolver_raises:
  assumes "snd (ensure_user p w username) = Raises e"
  shows "generate_answer p cfg w txt username =
           (if is_Exception e
            then (fst (ensure_user p w username) @
                    [LogError (p @ '' bot failed to get AI response: '' @ str_exn e)], Returns APOLOGY)
            else (fst (ensure_user p w username), Raises e))"
proof -
  obtain tr where "ensure_user p w username = (tr, Raises e)"
    using assms by (cases "ensure_user p w username") simp
  then show ?thesis by (simp add: generate_answer_def io_simps)
qed

lemma generate_answer_resolver_hangs:
  assumes "snd (ensure_user p w username) = NoReturn"
  shows "generate_answer p cfg w txt username = (fst (ensure_user p w username), NoReturn)"
proof -
  obtain tr where "ensure_user p w username = (tr, NoReturn)"
    using assms by (cases "ensure_user p w username") simp
  then show ?thesis by (simp add: generate_answer_def io_simps)
qed

lemma generate_answer_asked:
  assumes "snd (ensure_user p w username) = Returns u"
  shows "generate_answer p cfg w txt username =
           (case generate_response w txt u True True False (cookies_file cfg) of
              Returns reply \<Rightarrow>
                (fst (ensure_user p w username) @
                   [GenerateResponse txt u True True False (cookies_file cfg)], Returns reply)
            | Raises e \<Rightarrow>
                if is_Exception e
                then (fst (ensure_user p w username) @
                        [GenerateResponse txt u True True False (cookies_file cfg),
                         LogError (p @ '' bot failed to get AI response: '' @ str_exn e)],
                      Returns APOLOGY)
                else (fst (ensure_user p w username) @
                        [GenerateResponse txt u True True False (cookies_file cfg)], Raises e)
            | NoReturn \<Rightarrow>
                (fst (ensure_user p w username) @
                   [GenerateResponse txt u True True False (cookies_file cfg)], NoReturn))"
proof -
  obtain tr where "ensure_user p w username = (tr, Returns u)"
    using assms by (cases "ensure_user p w username") simp
  then show ?thesis
    by (cases "generate_response w txt u True True False (cookies_file cfg)")
      (simp_all add: generate_answer_def ask_backend_def io_simps)
qed

lemma APOLOGY_nonempty: "APOLOGY \<noteq> []"
  by (simp add: APOLOGY_def)

subsection \<open>When the backend fails\<close>

lemma generate_answer_asked_under:
  assumes "GenerateResponse txt u True True False (cookies_file cfg)
             \<in> set (fst (generate_answer p cfg w txt name))"
  shows "snd (ensure_user p w name) = Returns u"
proof (cases "snd (ensure_user p w name)")
  case (Returns u')
  have "u = u'"
    using assms ensure_user_trace [of "txt" u True True False "cookies_file cfg" p w name]
    unfolding generate_answer_asked [OF Returns]
    by (cases "generate_response w txt u' True True False (cookies_file cfg)")
      (auto split: if_splits)
  with Returns show ?thesis by simp
next
  case (Raises e)
  then show ?thesis
    using assms ensure_user_trace [of "txt" u True True False "cookies_file cfg" p w name]
    by (auto simp: generate_answer_resolver_raises split: if_splits)
next
  case NoReturn
  then show ?thesis
    using assms ensure_user_trace [of "txt" u True True False "cookies_file cfg" p w name]
    by (simp add: generate_answer_resolver_hangs)
qed

lemma generate_answer_backend_raises:
  assumes "GenerateResponse txt u True True False (cookies_file cfg)
             \<in> set (fst (generate_answer p cfg w txt name))"
    and "generate_response w txt u True True False (cookies_file cfg) = Raises e"
    and "is_Exception e"
  shows "snd (generate_answer p cfg w txt name) = Returns APOLOGY"
  using generate_answer_asked [OF generate_answer_asked_under [OF assms(1)], of cfg "txt"] assms(2,3)
  by simp

lemma generate_answer_reply:
  assumes "snd (generate_answer p cfg w txt name) = Returns r"
  shows "r = APOLOGY \<or>
         (\<exists>u. GenerateResponse txt u True True False (cookies_file cfg)
                  \<in> set (fst (generate_answer p cfg w txt name)) \<and>
              generate_response w txt u True True False (cookies_file cfg) = Returns r)"
proof (cases "snd (ensure_user p w name)")
  case (Returns u)
  show ?thesis
  proof (cases "generate_response w txt u True True False (cookies_file cfg)")
    case (Returns reply)
    with assms generate_answer_asked [OF \<open>snd (ensure_user p w name) = Returns u\<close>, of cfg "txt"]
    have "r = reply" "GenerateResponse txt u True True False (cookies_file cfg)
                  \<in> set (fst (generate_answer p cfg w txt name))"
      by simp_all
    with Returns show ?thesis by blast
  next
    case (Raises e)
    with assms generate_answer_asked [OF \<open>snd (ensure_user p w name) = Returns u\<close>, of cfg "txt"]
    show ?thesis by (simp split: if_splits)
  next
    case NoReturn
    with assms generate_answer_asked [OF \<open>snd (ensure_user p w name) = Returns u\<close>, of cfg "txt"]
    show ?thesis by simp
  qed
next
  case (Raises e)
  with assms show ?thesis by (simp add: generate_answer_resolver_raises split: if_splits)
next
  case NoReturn
  with assms show ?thesis by (simp add: generate_answer_resolver_hangs)
qed

lemma sample_world_simps:
  "get_user_by_username (sample_world l c a) n = l"
  "create_user (sample_world l c a) n = c"
  "generate_response (sample_world l c a) m n h s p f = a"
  "say (sample_world l c a) r = Returns ()"
  "await_typing_task (sample_world l c a) = Returns ()"
  "reply_text (sample_world l c a) i ch md = Returns ()"
  by (simp_all add: sample_world_def)

lemma sample_config_simps:
  "cookies_file sample_config = ''cookies.json''"
  "telegram_bot_token sample_config = None"
  "slack_bot_token sample_config = None"
  "slack_app_token sample_config = None"
  by (simp_all add: sample_config_def)

text \<open>
  Claim C1. For every message text and username, if the call of the AI backend that the
  orchestrator makes raises an exception (an instance of \<open>Exception\<close>), the
  orchestrator of either bot returns exactly the apology string; nothing is raised.
\<close>

theorem generate_answer_backend_failure:
  assumes "R = tg_generate_answer cfg w txt username \<or> R = slack_generate_answer cfg w txt user_id"
    and "GenerateResponse txt u True True False (cookies_file cfg) \<in> set (fst R)"
    and "generate_response w txt u True True False (cookies_file cfg) = Raises e"
    and "is_Exception e"
  shows "snd R = Returns APOLOGY \<and>
         APOLOGY = ''Sorry, I couldn't get a response right now. Please try again.''"
  using assms generate_answer_backend_raises [of "txt" u cfg _ w _ e]
  by (auto simp: tg_generate_answer_def slack_generate_answer_def APOLOGY_def)

theorem generate_answer_backend_failure_witness:
  "tg_generate_answer sample_config
     (sample_world (Returns (Some ())) (Returns ()) (Raises (OtherException ''no provider''))) ''hi'' ''tg_7'' =
     ([GetUserByUsername ''tg_7'',
       GenerateResponse ''hi'' ''tg_7'' True True False ''cookies.json'',
       LogError ''Telegram bot failed to get AI response: no provider''],
      Returns ''Sorry, I couldn't get a response right now. Please try again.'') \<and>
   snd (slack_generate_answer sample_config
     (sample_world (Returns None) (Raises (OtherException ''locked'')) (Raises (RuntimeError ''boom''))) ''hi'' ''U7'') =
     Returns ''Sorry, I couldn't get a response right now. Please try again.''"
proof -
  let ?w1 = "sample_world (Returns (Some ())) (Returns ()) (Raises (OtherException ''no provider''))"
  let ?w2 = "sample_world (Returns None) (Raises (OtherException ''locked'')) (Raises (RuntimeError ''boom''))"
  have t1: "tg_generate_answer sample_config ?w1 ''hi'' ''tg_7'' =
     ([GetUserByUsername ''tg_7'',
       GenerateResponse ''hi'' ''tg_7'' True True False ''cookies.json'',
       LogError ''Telegram bot failed to get AI response: no provider''], Returns APOLOGY)"
    by (simp add: tg_generate_answer_def generate_answer_def ensure_user_def ask_backend_def
        io_simps sample_world_simps sample_config_simps)
  have t2: "GenerateResponse ''hi'' ''admin'' True True False (cookies_file sample_config)
      \<in> set (fst (slack_generate_answer sample_config ?w2 ''hi'' ''U7''))"
    by (simp add: slack_generate_answer_def generate_answer_def ensure_user_def ask_backend_def
        io_simps sample_world_simps sample_config_simps Let_def)
  have "snd (tg_generate_answer sample_config ?w1 ''hi'' ''tg_7'') = Returns APOLOGY \<and>
        APOLOGY = ''Sorry, I couldn't get a response right now. Please try again.''"
    using generate_answer_backend_failure
      [of "tg_generate_answer sample_config ?w1 ''hi'' ''tg_7''" sample_config ?w1 "''hi''"
          "''tg_7''" "''U7''" "''tg_7''" "OtherException ''no provider''"] t1
    by (simp add: sample_world_simps sample_config_simps)
  moreover have "snd (slack_generate_answer sample_config ?w2 ''hi'' ''U7'') = Returns APOLOGY \<and>
        APOLOGY = ''Sorry, I couldn't get a response right now. Please try again.''"
    using generate_answer_backend_failure
      [of "slack_generate_answer sample_config ?w2 ''hi'' ''U7''" sample_config ?w2 "''hi''"
          "''tg_7''" "''U7''" "''admin''" "RuntimeError ''boom''"] t2
    by (simp add: sample_world_simps)
  ultimately show ?thesis using t1 by simp
qed

subsection \<open>When the user store fails\<close>

lemma generate_answer_fallback:
  assumes "get_user_by_username w name = Returns None" "create_user w name = Raises e"
    "is_Exception e"
  shows "GenerateResponse txt ''admin'' True True False (cookies_file cfg)
           \<in> set (fst (generate_answer p cfg w txt name))"
    and "generate_response w txt ''admin'' True True False (cookies_file cfg) = Returns reply \<Longrightarrow>
           snd (generate_answer p cfg w txt name) = Returns reply"
    and "generate_response w txt ''admin'' True True False (cookies_file cfg) = Raises e' \<Longrightarrow>
           is_Exception e' \<Longrightarrow> snd (generate_answer p cfg w txt name) = Returns APOLOGY"
proof -
  have r: "snd (ensure_user p w name) = Returns ''admin''"
    using ensure_user_fallback [OF assms, of p] by simp
  show "GenerateResponse txt ''admin'' True True False (cookies_file cfg)
           \<in> set (fst (generate_answer p cfg w txt name))"
    unfolding generate_answer_asked [OF r]
    by (cases "generate_response w txt ''admin'' True True False (cookies_file cfg)") simp_all
  show "generate_response w txt ''admin'' True True False (cookies_file cfg) = Returns reply \<Longrightarrow>
           snd (generate_answer p cfg w txt name) = Returns reply"
    unfolding generate_answer_asked [OF r] by simp
  show "generate_response w txt ''admin'' True True False (cookies_file cfg) = Raises e' \<Longrightarrow>
           is_Exception e' \<Longrightarrow> snd (generate_answer p cfg w txt name) = Returns APOLOGY"
    unfolding generate_answer_asked [OF r] by simp
qed

lemma generate_answer_lookup_fails:
  assumes "get_user_by_username w name = Raises e" "is_Exception e"
  shows "generate_answer p cfg w txt name =
           ([GetUserByUsername name,
             LogError (p @ '' bot failed to get AI response: '' @ str_exn e)], Returns APOLOGY)"
proof -
  have "ensure_user p w name = ([GetUserByUsername name], Raises e)"
    using assms(1) by (rule ensure_user_lookup_raises)
  then show ?thesis
    using generate_answer_resolver_raises [of p w name e cfg "txt"] assms(2) by simp
qed

text \<open>
  Claim C2, as the code has it. \<open>name\<close> is the username the bot looks up (Telegram:
  the one it is given; Slack: \<open>slack_<user_id>\<close>). If the lookup finds no user and the
  creation raises an exception, the backend is asked under \<open>"admin"\<close>: its reply is the
  result, or the apology string if that call raises an exception; nothing is raised. If
  the lookup itself raises an exception, the result is the apology string and the backend
  is not asked at all.
\<close>

theorem generate_answer_store_failure:
  assumes "(R = tg_generate_answer cfg w txt name) \<or>
           (name = ''slack_'' @ user_id \<and> R = slack_generate_answer cfg w txt user_id)"
  shows "(get_user_by_username w name = Returns None \<and> create_user w name = Raises e \<and>
            is_Exception e \<longrightarrow>
            GenerateResponse txt ''admin'' True True False (cookies_file cfg) \<in> set (fst R) \<and>
            (\<forall>reply. generate_response w txt ''admin'' True True False (cookies_file cfg) = Returns reply
               \<longrightarrow> snd R = Returns reply) \<and>
            (\<forall>e'. generate_response w txt ''admin'' True True False (cookies_file cfg) = Raises e' \<and>
               is_Exception e' \<longrightarrow> snd R = Returns APOLOGY)) \<and>
         (get_user_by_username w name = Raises e \<and> is_Exception e \<longrightarrow>
            snd R = Returns APOLOGY \<and>
            (\<forall>u. GenerateResponse txt u True True False (cookies_file cfg) \<notin> set (fst R)))"
proof -
  obtain p where R: "R = generate_answer p cfg w txt name"
    using assms by (auto simp: tg_generate_answer_def slack_generate_answer_def)
  show ?thesis
    unfolding R
    using generate_answer_fallback [where w = w and name = name and e = e and cfg = cfg and p = p]
      generate_answer_lookup_fails [where w = w and name = name and e = e and cfg = cfg and p = p]
    by auto
qed

theorem generate_answer_store_failure_witness:
  "snd (tg_generate_answer sample_config
          (sample_world (Returns None) (Raises (OtherException ''locked'')) (Returns ''hello''))
          ''hi'' ''tg_7'') = Returns ''hello'' \<and>
   GenerateResponse ''hi'' ''admin'' True True False ''cookies.json''
     \<in> set (fst (slack_generate_answer sample_config
          (sample_world (Returns None) (Raises (OtherException ''locked'')) (Returns ''hello''))
          ''hi'' ''U7'')) \<and>
   snd (slack_generate_answer sample_config
          (sample_world (Raises (OtherException ''db down'')) (Returns ()) (Returns ''hello''))
          ''hi'' ''U7'') = Returns APOLOGY"
proof -
  let ?w1 = "sample_world (Returns None) (Raises (OtherException ''locked'')) (Returns ''hello'')"
  let ?w2 = "sample_world (Raises (OtherException ''db down'')) (Returns ()) (Returns ''hello'')"
  show ?thesis
    using generate_answer_store_failure
      [of "tg_generate_answer sample_config ?w1 ''hi'' ''tg_7''" sample_config ?w1 "''hi''"
          "''tg_7''" "''U7''" "OtherException ''locked''"]
      generate_answer_store_failure
      [of "slack_generate_answer sample_config ?w1 ''hi'' ''U7''" sample_config ?w1 "''hi''"
          "''slack_U7''" "''U7''" "OtherException ''locked''"]
      generate_answer_store_failure
      [of "slack_generate_answer sample_config ?w2 ''hi'' ''U7''" sample_config ?w2 "''hi''"
          "''slack_U7''" "''U7''" "OtherException ''db down''"]
    by (simp add: sample_world_simps sample_config_simps)
qed

text \<open>
  The claim as stated fails when the lookup fails: the backend would answer \<open>hello\<close>
  under \<open>"admin"\<close>, but it is never asked and the reply is the apology string.
\<close>

theorem generate_answer_lookup_failure_counterexample:
  "get_user_by_username
     (sample_world (Raises (OtherException ''db down'')) (Returns ()) (Returns ''hello'')) ''tg_7'' =
     Raises (OtherException ''db down'') \<and>
   generate_response
     (sample_world (Raises (OtherException ''db down'')) (Returns ()) (Returns ''hello''))
     ''hi'' ''admin'' True True False ''cookies.json'' = Returns ''hello'' \<and>
   tg_generate_answer sample_config
     (sample_world (Raises (OtherException ''db down'')) (Returns ()) (Returns ''hello''))
     ''hi'' ''tg_7'' =
     ([GetUserByUsername ''tg_7'',
       LogError ''Telegram bot failed to get AI response: db down''], Returns APOLOGY) \<and>
   APOLOGY \<noteq> ''hello''"
  by (simp add: tg_generate_answer_def generate_answer_def ensure_user_def ask_backend_def
      io_simps sample_world_simps sample_config_simps APOLOGY_def)

subsection \<open>Where the reply comes from\<close>

text \<open>
  Claim C9, as the code has it. A reply the orchestrator returns is the apology string,
  which is not empty, or else the very string the backend returned to the call the
  orchestrator made; so it is empty only if the backend returned the empty string.
\<close>

theorem generate_answer_reply_origin:
  assumes "R = tg_generate_answer cfg w txt username \<or> R = slack_generate_answer cfg w txt user_id"
    and "snd R = Returns r"
  shows "(r = APOLOGY \<and> r \<noteq> []) \<or>
         (\<exists>u. GenerateResponse txt u True True False (cookies_file cfg) \<in> set (fst R) \<and>
              generate_response w txt u True True False (cookies_file cfg) = Returns r)"
proof -
  obtain p name where R: "R = generate_answer p cfg w txt name"
    using assms(1) by (auto simp: tg_generate_answer_def slack_generate_answer_def)
  have "r = APOLOGY \<or>
         (\<exists>u. GenerateResponse txt u True True False (cookies_file cfg) \<in> set (fst R) \<and>
              generate_response w txt u True True False (cookies_file cfg) = Returns r)"
    using generate_answer_reply [where p = p and cfg = cfg and w = w and name = name and r = r]
      assms(2)
    unfolding R by simp
  then show ?thesis using APOLOGY_nonempty by auto
qed

theorem generate_answer_reply_origin_witness:
  "snd (tg_generate_answer sample_config
          (sample_world (Returns (Some ())) (Returns ()) (Returns ''hello'')) ''hi'' ''tg_7'') =
     Returns ''hello'' \<and>
   ((''hello'' = APOLOGY \<and> ''hello'' \<noteq> []) \<or>
    (\<exists>u. GenerateResponse ''hi'' u True True False (cookies_file sample_config)
            \<in> set (fst (tg_generate_answer sample_config
                 (sample_world (Returns (Some ())) (Returns ()) (Returns ''hello'')) ''hi'' ''tg_7'')) \<and>
         generate_response (sample_world (Returns (Some ())) (Returns ()) (Returns ''hello''))
           ''hi'' u True True False (cookies_file sample_config) = Returns ''hello''))"
proof -
  let ?w = "sample_world (Returns (Some ())) (Returns ()) (Returns ''hello'')"
  have t: "snd (tg_generate_answer sample_config ?w ''hi'' ''tg_7'') = Returns ''hello''"
    by (simp add: tg_generate_answer_def generate_answer_def ensure_user_def ask_backend_def
        io_simps sample_world_simps sample_config_simps)
  show ?thesis
    using generate_answer_reply_origin
      [of "tg_generate_answer sample_config ?w ''hi'' ''tg_7''" sample_config ?w "''hi''"
          "''tg_7''" "''U7''" "''hello''"] t
    by simp
qed

text \<open>The claim as stated fails when the backend returns the empty string.\<close>

theorem generate_answer_empty_reply_counterexample:
  "tg_generate_answer sample_config
     (sample_world (Returns (Some ())) (Returns ()) (Returns '''')) ''hi'' ''tg_7'' =
     ([GetUserByUsername ''tg_7'',
       GenerateResponse ''hi'' ''tg_7'' True True False ''cookies.json''], Returns '''') \<and>
   slack_generate_answer sample_config
     (sample_world (Returns (Some ())) (Returns ()) (Returns '''')) ''hi'' ''U7'' =
     ([GetUserByUsername ''slack_U7'',
       GenerateResponse ''hi'' ''slack_U7'' True True False ''cookies.json''], Returns '''')"
  by (simp add: tg_generate_answer_def slack_generate_answer_def generate_answer_def
      ensure_user_def ask_backend_def io_simps sample_world_simps sample_config_simps Let_def)

section \<open>The launchers without a token\<close>

text \<open>
  Claim C8. Whenever the token a launcher needs is absent (no override and nothing
  configured; for Slack, either of its two tokens), the launcher logs that the bot is
  disabled and returns \<open>None\<close>, and that log line is all it does: the running loop is not
  asked for, no task is created and no thread is started.
\<close>

theorem launcher_disabled_without_token:
  "(\<not> truthy token_override \<and> \<not> truthy (telegram_bot_token cfg) \<longrightarrow>
      start_telegram_bot cfg w blocking token_override =
        ([LogInfo ''TELEGRAM_BOT_TOKEN not set; Telegram bot disabled''], Returns None)) \<and>
   ((\<not> truthy bot_token_override \<and> \<not> truthy (slack_bot_token cfg)) \<or>
    (\<not> truthy app_token_override \<and> \<not> truthy (slack_app_token cfg)) \<longrightarrow>
      start_slack_bot cfg w blocking bot_token_override app_token_override =
        ([LogInfo ''SLACK_BOT_TOKEN or SLACK_APP_TOKEN not set; Slack bot disabled''], Returns None))"
  by (auto simp: start_telegram_bot_def start_slack_bot_def py_or_def Let_def io_simps)

theorem launcher_disabled_without_token_witness:
  "\<not> truthy None \<and> \<not> truthy (Some '''') \<and> \<not> truthy (telegram_bot_token sample_config) \<and>
   \<not> truthy (slack_app_token sample_config) \<and>
   start_telegram_bot sample_config (sample_world NoReturn NoReturn NoReturn) True (Some '''') =
     ([LogInfo ''TELEGRAM_BOT_TOKEN not set; Telegram bot disabled''], Returns None) \<and>
   start_slack_bot sample_config (sample_world NoReturn NoReturn NoReturn) False (Some ''xoxb-1'') None =
     ([LogInfo ''SLACK_BOT_TOKEN or SLACK_APP_TOKEN not set; Slack bot disabled''], Returns None) \<and>
   GetRunningLoop \<notin> set (fst (start_slack_bot sample_config (sample_world NoReturn NoReturn NoReturn)
     False (Some ''xoxb-1'') None))"
proof -
  have h: "\<not> truthy None" "\<not> truthy (Some '''')" "\<not> truthy (telegram_bot_token sample_config)"
    "\<not> truthy (slack_app_token sample_config)"
    by (simp_all add: truthy_def sample_config_simps)
  show ?thesis
    using h
      launcher_disabled_without_token
        [of "Some ''''" sample_config "sample_world NoReturn NoReturn NoReturn" True None None]
      launcher_disabled_without_token
        [of None sample_config "sample_world NoReturn NoReturn NoReturn" False "Some ''xoxb-1''" None]
    by simp
qed

section \<open>The Slack adapter's call sequence\<close>

lemma ensure_user_actions:
  "\<forall>a\<in>set (fst (ensure_user p w name)). orchestrator_action a"
proof (cases "get_user_by_username w name")
  case (Returns user)
  show ?thesis
  proof (cases user)
    case None
    with Returns show ?thesis
      by (cases "create_user w name") (auto simp: ensure_user_def io_simps)
  next
    case (Some x)
    with Returns show ?thesis by (simp add: ensure_user_def io_simps)
  qed
next
  case (Raises e)
  then show ?thesis by (simp add: ensure_user_def io_simps)
next
  case NoReturn
  then show ?thesis by (simp add: ensure_user_def io_simps)
qed

lemma generate_answer_actions:
  "\<forall>a\<in>set (fst (generate_answer p cfg w txt name)). orchestrator_action a"
proof (cases "snd (ensure_user p w name)")
  case (Returns u)
  show ?thesis
    unfolding generate_answer_asked [OF Returns]
    using ensure_user_actions [of p w name]
    by (cases "generate_response w txt u True True False (cookies_file cfg)") auto
next
  case (Raises e)
  then show ?thesis
    using ensure_user_actions [of p w name] by (auto simp: generate_answer_resolver_raises)
next
  case NoReturn
  then show ?thesis
    using ensure_user_actions [of p w name] by (simp add: generate_answer_resolver_hangs)
qed

lemma orchestrator_not_liveness: "orchestrator_action a \<Longrightarrow> \<not> liveness_action a"
  by (cases a) simp_all

lemma slack_handle_message_eq:
  assumes "strip (case msg ''text'' of None \<Rightarrow> [] | Some t \<Rightarrow> t) \<noteq> []"
  shows "slack_handle_message cfg w msg =
           io_bind
             (slack_generate_answer cfg w (case msg ''text'' of None \<Rightarrow> [] | Some t \<Rightarrow> t)
                (case msg ''user'' of None \<Rightarrow> ''unknown'' | Some u \<Rightarrow> u))
             (\<lambda>reply. io_call (Say reply) (say w reply))"
  using assms by (simp add: slack_handle_message_def Let_def)

text \<open>
  Claim C7, as the code has it. For every inbound Slack message whose text is not only
  white space, the Slack adapter calls the orchestrator and, when it returns a reply,
  sends that whole reply in one \<open>say\<close>, whatever its length. It starts, cancels and awaits
  no liveness task and sends no chunk.
\<close>

theorem slack_handle_message_sequence:
  assumes "txt = (case msg ''text'' of None \<Rightarrow> [] | Some t \<Rightarrow> t)"
    and "user_id = (case msg ''user'' of None \<Rightarrow> ''unknown'' | Some u \<Rightarrow> u)"
    and "strip txt \<noteq> []"
  shows "(\<forall>a\<in>set (fst (slack_handle_message cfg w msg)).
            \<not> liveness_action a \<and> (\<forall>chunk md. a \<noteq> ReplyText chunk md)) \<and>
         (\<forall>reply. snd (slack_generate_answer cfg w txt user_id) = Returns reply \<longrightarrow>
            slack_handle_message cfg w msg =
              (fst (slack_generate_answer cfg w txt user_id) @ [Say reply], say w reply))"
proof -
  let ?A = "slack_generate_answer cfg w txt user_id"
  have eq: "slack_handle_message cfg w msg = io_bind ?A (\<lambda>reply. io_call (Say reply) (say w reply))"
    using slack_handle_message_eq [of msg cfg w] assms by simp
  have acts: "\<forall>a\<in>set (fst ?A). orchestrator_action a"
    using generate_answer_actions [where p = "''Slack''" and cfg = cfg and w = w]
    by (simp add: slack_generate_answer_def Let_def)
  obtain tr res where A: "?A = (tr, res)" by (cases ?A)
  have "\<forall>a\<in>set (fst (slack_handle_message cfg w msg)). orchestrator_action a \<or> (\<exists>r. a = Say r)"
    using acts unfolding eq A by (cases res) (auto simp: io_simps)
  then have first: "\<forall>a\<in>set (fst (slack_handle_message cfg w msg)).
      \<not> liveness_action a \<and> (\<forall>chunk md. a \<noteq> ReplyText chunk md)"
    by (auto simp: orchestrator_not_liveness)
  have "\<forall>reply. snd ?A = Returns reply \<longrightarrow>
      slack_handle_message cfg w msg = (fst ?A @ [Say reply], say w reply)"
    unfolding eq A by (simp add: io_simps)
  with first show ?thesis by blast
qed

lemma split_message_4001:
  "split_message (replicate 4001 CHR ''a'') 4000 = Some [replicate 4000 CHR ''a'', ''a'']"
proof -
  let ?s = "replicate 4001 CHR ''a''"
  have pos: "(0::int) < 4000" by simp
  have nl: "NL \<notin> set ?s" by (simp add: NL_def)
  have idx: "split_idx ?s 4000 = int 4000"
    using split_idx_hard [OF pos, of ?s] no_newline_no_break [OF nl] by simp
  have rest: "lstrip_nl (drop 4000 ?s) = ''a''"
    by (simp add: lstrip_nl_def NL_def)
  have "split_loop ?s 4000 [] = split_loop ''a'' 4000 ([] @ [take 4000 ?s])"
    using split_loop_step [OF pos _ idx, of "[]"] rest by simp
  also have "\<dots> = Some [replicate 4000 CHR ''a'', ''a'']"
    by (subst split_loop.simps) simp
  finally show ?thesis by (simp add: split_message_def)
qed

lemma strip_hi: "strip ''hi'' = ''hi''"
  by (simp add: strip_def is_space_def)

lemma str_int_7: "str_int 7 = ''7''"
  by code_simp

theorem slack_handle_message_sequence_witness:
  "strip ''hi'' \<noteq> [] \<and>
   slack_handle_message sample_config
     (sample_world (Returns (Some ())) (Returns ()) (Returns ''hello''))
     [''text'' \<mapsto> ''hi'', ''user'' \<mapsto> ''U7''] =
     ([GetUserByUsername ''slack_U7'',
       GenerateResponse ''hi'' ''slack_U7'' True True False ''cookies.json'',
       Say ''hello''], Returns ())"
proof -
  let ?w = "sample_world (Returns (Some ())) (Returns ()) (Returns ''hello'')"
  have a: "slack_generate_answer sample_config ?w ''hi'' ''U7'' =
      ([GetUserByUsername ''slack_U7'',
        GenerateResponse ''hi'' ''slack_U7'' True True False ''cookies.json''], Returns ''hello'')"
    by (simp add: slack_generate_answer_def generate_answer_def ensure_user_def ask_backend_def
        io_simps sample_world_simps sample_config_simps Let_def)
  show ?thesis
    using slack_handle_message_sequence
      [of "''hi''" "[''text'' \<mapsto> ''hi'', ''user'' \<mapsto> ''U7'']" "''U7''" sample_config ?w]
      a strip_hi
    by (simp add: sample_world_simps)
qed

text \<open>
  The claim as stated fails: on a reply of 4001 characters the Telegram adapter creates,
  cancels and awaits the typing task and sends two chunks, while the Slack adapter does
  nothing with a liveness task and sends the reply whole.
\<close>

theorem slack_not_like_telegram_counterexample:
  "slack_handle_message sample_config
     (sample_world (Returns (Some ())) (Returns ()) (Returns (replicate 4001 CHR ''a'')))
     [''text'' \<mapsto> ''hi'', ''user'' \<mapsto> ''U7''] =
     ([GetUserByUsername ''slack_U7'',
       GenerateResponse ''hi'' ''slack_U7'' True True False ''cookies.json'',
       Say (replicate 4001 CHR ''a'')], Returns ()) \<and>
   tg_handle_message sample_config
     (sample_world (Returns (Some ())) (Returns ()) (Returns (replicate 4001 CHR ''a'')))
     \<lparr>message = Some \<lparr>msg_text = Some ''hi''\<rparr>, effective_user = Some \<lparr>tg_user_id = 7\<rparr>\<rparr> =
     ([CreateTask ''_typing_loop'',
       GetUserByUsername ''tg_7'',
       GenerateResponse ''hi'' ''tg_7'' True True False ''cookies.json'',
       CancelTask ''_typing_loop'',
       AwaitTask ''_typing_loop'',
       ReplyText (replicate 4000 CHR ''a'') True,
       ReplyText ''a'' True], Returns ())"
proof -
  let ?w = "sample_world (Returns (Some ())) (Returns ()) (Returns (replicate 4001 CHR ''a''))"
  have s: "slack_generate_answer sample_config ?w ''hi'' ''U7'' =
      ([GetUserByUsername ''slack_U7'',
        GenerateResponse ''hi'' ''slack_U7'' True True False ''cookies.json''],
       Returns (replicate 4001 CHR ''a''))"
    by (simp add: slack_generate_answer_def generate_answer_def ensure_user_def ask_backend_def
        io_simps sample_world_simps sample_config_simps Let_def)
  have t: "tg_generate_answer sample_config ?w ''hi'' ''tg_7'' =
      ([GetUserByUsername ''tg_7'',
        GenerateResponse ''hi'' ''tg_7'' True True False ''cookies.json''],
       Returns (replicate 4001 CHR ''a''))"
    by (simp add: tg_generate_answer_def generate_answer_def ensure_user_def ask_backend_def
        io_simps sample_world_simps sample_config_simps)
  have slack: "slack_handle_message sample_config ?w [''text'' \<mapsto> ''hi'', ''user'' \<mapsto> ''U7''] =
      ([GetUserByUsername ''slack_U7'',
        GenerateResponse ''hi'' ''slack_U7'' True True False ''cookies.json'',
        Say (replicate 4001 CHR ''a'')], Returns ())"
    by (simp add: slack_handle_message_def Let_def strip_hi s io_simps sample_world_simps)
  have tg: "tg_handle_message sample_config ?w
      \<lparr>message = Some \<lparr>msg_text = Some ''hi''\<rparr>, effective_user = Some \<lparr>tg_user_id = 7\<rparr>\<rparr> =
      ([CreateTask ''_typing_loop'',
        GetUserByUsername ''tg_7'',
        GenerateResponse ''hi'' ''tg_7'' True True False ''cookies.json'',
        CancelTask ''_typing_loop'',
        AwaitTask ''_typing_loop'',
        ReplyText (replicate 4000 CHR ''a'') True,
        ReplyText ''a'' True], Returns ())"
    by (simp add: tg_handle_message_def Let_def strip_hi str_int_7 TELEGRAM_USERNAME_PREFIX_def
        t split_message_4001 io_simps sample_world_simps)
  from slack tg show ?thesis by simp
qed

section \<open>The Telegram adapter's typing task\<close>

lemma split_message_returns:
  assumes "0 < max_len"
  shows "\<exists>chunks. split_message s max_len = Some chunks"
proof -
  obtain chunks where "split_loop s max_len [] = Some ([] @ chunks)"
    using split_loop_total [OF assms, of s "[]"] by blast
  then show ?thesis by (simp add: split_message_def)
qed

lemma send_chunks_actions:
  "\<forall>a\<in>set (fst (send_chunks w idx chunks)). \<exists>chunk md. a = ReplyText chunk md"
proof (induction chunks arbitrary: idx)
  case Nil
  show ?case by (simp add: io_simps)
next
  case (Cons chunk chunks)
  let ?rest = "send_chunks w (Suc idx) chunks"
  have rest: "\<forall>a\<in>set (fst ?rest). \<exists>chunk md. a = ReplyText chunk md"
    by (rule Cons.IH)
  show ?case
  proof (cases "reply_text w idx chunk True")
    case (Returns u)
    then show ?thesis using rest by (auto simp: io_simps)
  next
    case (Raises e)
    show ?thesis
    proof (cases "is_BadRequest e")
      case True
      with Raises show ?thesis using rest
        by (cases "reply_text w idx chunk False") (auto simp: io_simps)
    next
      case False
      with Raises show ?thesis by (auto simp: io_simps)
    qed
  next
    case NoReturn
    then show ?thesis by (auto simp: io_simps)
  qed
qed

lemma tg_generate_answer_actions:
  "\<forall>a\<in>set (fst (tg_generate_answer cfg w txt username)). \<not> liveness_action a"
  using generate_answer_actions [where p = "''Telegram''" and cfg = cfg and w = w and name = username]
  by (auto simp: tg_generate_answer_def orchestrator_not_liveness)

text \<open>
  Claim C6. For every Telegram message with text that is not only white space, when the
  orchestrator returns (a reply or the apology), the handler has created the typing task
  before the orchestrator's calls, cancels it once and awaits it after them, and sends
  chunks only after that. If awaiting the cancelled task returns, or raises an instance of
  \<open>Exception\<close>, nothing of the cancellation is seen and the chunks are sent. If it
  raises a \<open>BaseException\<close> that is no \<open>Exception\<close>, as \<open>asyncio.CancelledError\<close> is,
  the handler's \<open>except Exception\<close> does not catch it: the handler raises it and sends
  no chunk.
\<close>

theorem tg_handle_message_liveness:
  assumes "message upd = Some msg" and "effective_user upd = Some user"
    and "txt = (case msg_text msg of None \<Rightarrow> [] | Some t \<Rightarrow> t)" and "strip txt \<noteq> []"
    and "username = TELEGRAM_USERNAME_PREFIX @ str_int (tg_user_id user)"
    and "tg_generate_answer cfg w txt username = (orch, Returns reply)"
  shows "\<exists>chunks. split_message reply 4000 = Some chunks \<and>
           (\<forall>a\<in>set orch. \<not> liveness_action a) \<and>
           (\<forall>a\<in>set (fst (send_chunks w 0 chunks)). \<exists>chunk md. a = ReplyText chunk md) \<and>
           tg_handle_message cfg w upd =
             (case await_typing_task w of
                Returns u \<Rightarrow>
                  (CreateTask ''_typing_loop'' # orch @
                     [CancelTask ''_typing_loop'', AwaitTask ''_typing_loop''] @
                     fst (send_chunks w 0 chunks),
                   snd (send_chunks w 0 chunks))
              | Raises e \<Rightarrow>
                  if is_Exception e
                  then (CreateTask ''_typing_loop'' # orch @
                          [CancelTask ''_typing_loop'', AwaitTask ''_typing_loop''] @
                          fst (send_chunks w 0 chunks),
                        snd (send_chunks w 0 chunks))
                  else (CreateTask ''_typing_loop'' # orch @
                          [CancelTask ''_typing_loop'', AwaitTask ''_typing_loop''],
                        Raises e)
              | NoReturn \<Rightarrow>
                  (CreateTask ''_typing_loop'' # orch @
                     [CancelTask ''_typing_loop'', AwaitTask ''_typing_loop''],
                   NoReturn))"
proof -
  obtain chunks where chunks: "split_message reply 4000 = Some chunks"
    using split_message_returns [of 4000 reply] by auto
  have orch: "\<forall>a\<in>set orch. \<not> liveness_action a"
    using tg_generate_answer_actions [of cfg w "txt" username] assms(6) by simp
  have sends: "\<forall>a\<in>set (fst (send_chunks w 0 chunks)). \<exists>chunk md. a = ReplyText chunk md"
    by (rule send_chunks_actions)
  have "tg_handle_message cfg w upd =
      (case await_typing_task w of
         Returns u \<Rightarrow>
           (CreateTask ''_typing_loop'' # orch @
              [CancelTask ''_typing_loop'', AwaitTask ''_typing_loop''] @
              fst (send_chunks w 0 chunks),
            snd (send_chunks w 0 chunks))
       | Raises e \<Rightarrow>
           if is_Exception e
           then (CreateTask ''_typing_loop'' # orch @
                   [CancelTask ''_typing_loop'', AwaitTask ''_typing_loop''] @
                   fst (send_chunks w 0 chunks),
                 snd (send_chunks w 0 chunks))
           else (CreateTask ''_typing_loop'' # orch @
                   [CancelTask ''_typing_loop'', AwaitTask ''_typing_loop''],
                 Raises e)
       | NoReturn \<Rightarrow>
           (CreateTask ''_typing_loop'' # orch @
              [CancelTask ''_typing_loop'', AwaitTask ''_typing_loop''],
            NoReturn))"
    using assms chunks
    by (cases "await_typing_task w") (simp_all add: tg_handle_message_def Let_def io_simps)
  with chunks orch sends show ?thesis by blast
qed

theorem tg_handle_message_liveness_witness:
  "tg_handle_message sample_config
     ((sample_world (Raises (OtherException ''db down'')) (Returns ()) (Returns ''hello''))
        \<lparr>await_typing_task := Raises (BaseOnly ''CancelledError'')\<rparr>)
     \<lparr>message = Some \<lparr>msg_text = Some ''hi''\<rparr>, effective_user = Some \<lparr>tg_user_id = 7\<rparr>\<rparr> =
     ([CreateTask ''_typing_loop'',
       GetUserByUsername ''tg_7'',
       LogError ''Telegram bot failed to get AI response: db down'',
       CancelTask ''_typing_loop'',
       AwaitTask ''_typing_loop''], Raises (BaseOnly ''CancelledError'')) \<and>
   tg_handle_message sample_config
     (sample_world (Returns (Some ())) (Returns ()) (Returns ''hello''))
     \<lparr>message = Some \<lparr>msg_text = Some ''hi''\<rparr>, effective_user = Some \<lparr>tg_user_id = 7\<rparr>\<rparr> =
     ([CreateTask ''_typing_loop'',
       GetUserByUsername ''tg_7'',
       GenerateResponse ''hi'' ''tg_7'' True True False ''cookies.json'',
       CancelTask ''_typing_loop'',
       AwaitTask ''_typing_loop'',
       ReplyText ''hello'' True], Returns ())"
proof -
  let ?wf = "(sample_world (Raises (OtherException ''db down'')) (Returns ()) (Returns ''hello''))
        \<lparr>await_typing_task := Raises (BaseOnly ''CancelledError'')\<rparr>"
  let ?wk = "sample_world (Returns (Some ())) (Returns ()) (Returns ''hello'') :: unit world"
  let ?upd = "\<lparr>message = Some \<lparr>msg_text = Some ''hi''\<rparr>, effective_user = Some \<lparr>tg_user_id = 7\<rparr>\<rparr>"
  have tf: "tg_generate_answer sample_config ?wf ''hi'' ''tg_7'' =
      ([GetUserByUsername ''tg_7'',
        LogError ''Telegram bot failed to get AI response: db down''], Returns APOLOGY)"
    by (simp add: tg_generate_answer_def generate_answer_def ensure_user_def ask_backend_def
        io_simps sample_world_simps sample_config_simps)
  have tk: "tg_generate_answer sample_config ?wk ''hi'' ''tg_7'' =
      ([GetUserByUsername ''tg_7'',
        GenerateResponse ''hi'' ''tg_7'' True True False ''cookies.json''], Returns ''hello'')"
    by (simp add: tg_generate_answer_def generate_answer_def ensure_user_def ask_backend_def
        io_simps sample_world_simps sample_config_simps)
  have name: "''tg_7'' = TELEGRAM_USERNAME_PREFIX @ str_int (tg_user_id \<lparr>tg_user_id = 7\<rparr>)"
    by (simp add: TELEGRAM_USERNAME_PREFIX_def str_int_7)
  have sm: "split_message ''hello'' 4000 = Some [''hello'']"
    by (simp add: split_message_def)
  have f: "tg_handle_message sample_config ?wf ?upd =
      ([CreateTask ''_typing_loop'',
        GetUserByUsername ''tg_7'',
        LogError ''Telegram bot failed to get AI response: db down'',
        CancelTask ''_typing_loop'',
        AwaitTask ''_typing_loop''], Raises (BaseOnly ''CancelledError''))"
    using tg_handle_message_liveness
      [of ?upd "\<lparr>msg_text = Some ''hi''\<rparr>" "\<lparr>tg_user_id = 7\<rparr>" "''hi''" "''tg_7''"
          sample_config ?wf
          "[GetUserByUsername ''tg_7'',
            LogError ''Telegram bot failed to get AI response: db down'']" APOLOGY]
      tf name strip_hi
    by auto
  have k: "tg_handle_message sample_config ?wk ?upd =
      ([CreateTask ''_typing_loop'',
        GetUserByUsername ''tg_7'',
        GenerateResponse ''hi'' ''tg_7'' True True False ''cookies.json'',
        CancelTask ''_typing_loop'',
        AwaitTask ''_typing_loop'',
        ReplyText ''hello'' True], Returns ())"
    using tg_handle_message_liveness
      [of ?upd "\<lparr>msg_text = Some ''hi''\<rparr>" "\<lparr>tg_user_id = 7\<rparr>" "''hi''" "''tg_7''"
          sample_config ?wk
          "[GetUserByUsername ''tg_7'',
            GenerateResponse ''hi'' ''tg_7'' True True False ''cookies.json'']" "''hello''"]
      tk name strip_hi sm
    by (auto simp: io_simps sample_world_simps)
  from f k show ?thesis by simp
qed

end
